theory Spec2Isabelle
  imports Main "HOL-Library.Sublist" "HOL-Library.Multiset"
begin

section \<open>Python values\<close>

text \<open>
  The exceptions that the modelled code can raise. A function whose Python body can raise
  returns \<open>py_error + 'a\<close>, with \<open>Inl\<close> for the exception.
\<close>

datatype py_error = FileNotFoundError | IndexError | ValueError | OverflowError

subsection \<open>Strings\<close>

text \<open>
  Strings are lists of 8-bit characters, so the model covers ASCII text.
  \<^verbatim>\<open>a in b\<close> on two strings is substring containment.
\<close>

definition str_in :: "string \<Rightarrow> string \<Rightarrow> bool" where
  "str_in needle hay = sublist needle hay"

definition LF :: char where
  "LF = CHR 0x0A"

definition CR :: char where
  "CR = CHR 0x0D"

text \<open>
  \<^verbatim>\<open>s.split(sep)\<close> for a non-empty separator: the pieces between the non-overlapping
  occurrences of \<open>sep\<close>, found from the left. Every separator in the source is a non-empty
  literal, so the empty separator (a ValueError in Python) is never reached.
\<close>

function str_split :: "string \<Rightarrow> string \<Rightarrow> string list" where
  "str_split sep s =
     (if sep = [] then [s]
      else if prefix sep s then [] # str_split sep (drop (length sep) s)
      else (case s of
              [] \<Rightarrow> [[]]
            | c # cs \<Rightarrow> (case str_split sep cs of
                          [] \<Rightarrow> [[c]]
                        | p # ps \<Rightarrow> (c # p) # ps)))"
  by pat_completeness auto
termination
  by (relation "measure (\<lambda>(sep, s). length s)") (auto simp: prefix_def)

declare str_split.simps [simp del]

text \<open>\<^verbatim>\<open>xs[i]\<close> raises IndexError out of range (only non-negative indices are used).\<close>

definition list_index :: "'a list \<Rightarrow> nat \<Rightarrow> py_error + 'a" where
  "list_index xs i = (if i < length xs then Inr (xs ! i) else Inl IndexError)"

text \<open>
  A text file opened for reading with the default \<^verbatim>\<open>newline=None\<close> translates
  \<^verbatim>\<open>\r\n\<close> and a lone \<^verbatim>\<open>\r\<close> to \<^verbatim>\<open>\n\<close>; \<^verbatim>\<open>readlines()\<close> then cuts the text
  after every \<^verbatim>\<open>\n\<close> and keeps the terminator on each line.
\<close>

fun universal_newlines :: "string \<Rightarrow> string" where
  "universal_newlines [] = []"
| "universal_newlines [c] = [if c = CR then LF else c]"
| "universal_newlines (c # d # cs) =
     (if c = CR then
        (if d = LF then LF # universal_newlines cs
         else LF # universal_newlines (d # cs))
      else c # universal_newlines (d # cs))"

fun splitlines :: "string \<Rightarrow> string list" where
  "splitlines [] = []"
| "splitlines (c # cs) =
     (if c = LF then [c] # splitlines cs
      else (case splitlines cs of
              [] \<Rightarrow> [[c]]
            | l # ls \<Rightarrow> (c # l) # ls))"

definition readlines :: "string \<Rightarrow> string list" where
  "readlines content = splitlines (universal_newlines content)"

text \<open>\<^verbatim>\<open>s.lower()\<close> and \<^verbatim>\<open>s.title()\<close> on ASCII text.\<close>

definition is_upper :: "char \<Rightarrow> bool" where
  "is_upper c = (65 \<le> (of_char c :: nat) \<and> (of_char c :: nat) \<le> 90)"

definition is_lower :: "char \<Rightarrow> bool" where
  "is_lower c = (97 \<le> (of_char c :: nat) \<and> (of_char c :: nat) \<le> 122)"

definition char_lower :: "char \<Rightarrow> char" where
  "char_lower c = (if is_upper c then char_of ((of_char c :: nat) + 32) else c)"

definition char_upper :: "char \<Rightarrow> char" where
  "char_upper c = (if is_lower c then char_of ((of_char c :: nat) - 32) else c)"

definition str_lower :: "string \<Rightarrow> string" where
  "str_lower s = map char_lower s"

text \<open>
  \<open>title_from prev s\<close>: \<open>prev\<close> says whether the character before \<open>s\<close> was a letter.
  A letter that follows a letter is lowered, any other letter is raised.
\<close>

fun title_from :: "bool \<Rightarrow> string \<Rightarrow> string" where
  "title_from prev [] = []"
| "title_from prev (c # cs) =
     (if is_upper c \<or> is_lower c
      then (if prev then char_lower c else char_upper c) # title_from True cs
      else c # title_from False cs)"

definition str_title :: "string \<Rightarrow> string" where
  "str_title s = title_from False s"

text \<open>\<^verbatim>\<open>s.strip()\<close> removes leading and trailing ASCII whitespace.\<close>

definition is_space :: "char \<Rightarrow> bool" where
  "is_space c = ((9 \<le> (of_char c :: nat) \<and> (of_char c :: nat) \<le> 13)
                 \<or> (28 \<le> (of_char c :: nat) \<and> (of_char c :: nat) \<le> 32))"

definition str_strip :: "string \<Rightarrow> string" where
  "str_strip s = rev (dropWhile is_space (rev (dropWhile is_space s)))"

text \<open>\<^verbatim>\<open>s.replace(old, new)\<close>, for a non-empty \<open>old\<close>: join the pieces of the split.\<close>

fun str_join :: "string \<Rightarrow> string list \<Rightarrow> string" where
  "str_join sep [] = []"
| "str_join sep [p] = p"
| "str_join sep (p # q # ps) = p @ sep @ str_join sep (q # ps)"

definition str_replace :: "string \<Rightarrow> string \<Rightarrow> string \<Rightarrow> string" where
  "str_replace old new s = str_join new (str_split old s)"

text \<open>\<^verbatim>\<open>f"{x}"\<close> of a value that may be \<^verbatim>\<open>None\<close>.\<close>

definition fmt_opt :: "string option \<Rightarrow> string" where
  "fmt_opt x = (case x of None \<Rightarrow> ''None'' | Some s \<Rightarrow> s)"

text \<open>\<^verbatim>\<open>d.get(key, default)\<close>: a key of a JSON object is present or absent.\<close>

definition dict_get :: "'a option \<Rightarrow> 'a \<Rightarrow> 'a" where
  "dict_get field dflt = (case field of None \<Rightarrow> dflt | Some v \<Rightarrow> v)"

subsection \<open>Naive datetimes\<close>

text \<open>
  A \<^verbatim>\<open>datetime\<close> without time zone is its seven fields. CPython orders naive datetimes and
  subtracts a \<^verbatim>\<open>timedelta\<close> through the proleptic Gregorian ordinal of the date, so the
  model compares datetimes by their count of microseconds since the start of day 0
  (0001-01-01 is day 1).
\<close>

record datetime =
  year :: nat
  month :: nat
  day :: nat
  hour :: nat
  minute :: nat
  second :: nat
  microsecond :: nat

definition is_leap :: "nat \<Rightarrow> bool" where
  "is_leap y = (y mod 4 = 0 \<and> (y mod 100 \<noteq> 0 \<or> y mod 400 = 0))"

definition days_in_month :: "nat \<Rightarrow> nat \<Rightarrow> nat" where
  "days_in_month y m =
     (if m = 2 then (if is_leap y then 29 else 28)
      else if m = 4 \<or> m = 6 \<or> m = 9 \<or> m = 11 then 30
      else 31)"

definition days_before_year :: "nat \<Rightarrow> nat" where
  "days_before_year y = (y - 1) * 365 + (y - 1) div 4 - (y - 1) div 100 + (y - 1) div 400"

definition days_before_month :: "nat \<Rightarrow> nat \<Rightarrow> nat" where
  "days_before_month y m = sum_list (map (days_in_month y) [1..<m])"

definition toordinal :: "datetime \<Rightarrow> nat" where
  "toordinal dt = days_before_year (year dt) + days_before_month (year dt) (month dt) + day dt"

definition to_micro :: "datetime \<Rightarrow> int" where
  "to_micro dt =
     (((int (toordinal dt) * 24 + int (hour dt)) * 60 + int (minute dt)) * 60
        + int (second dt)) * 1000000 + int (microsecond dt)"

definition valid_datetime :: "datetime \<Rightarrow> bool" where
  "valid_datetime dt =
     (1 \<le> year dt \<and> year dt \<le> 9999 \<and> 1 \<le> month dt \<and> month dt \<le> 12
      \<and> 1 \<le> day dt \<and> day dt \<le> days_in_month (year dt) (month dt)
      \<and> hour dt < 24 \<and> minute dt < 60 \<and> second dt < 60 \<and> microsecond dt < 1000000)"

definition datetime_min :: datetime where
  "datetime_min = \<lparr>year = 1, month = 1, day = 1, hour = 0, minute = 0, second = 0,
                    microsecond = 0\<rparr>"

definition datetime_max :: datetime where
  "datetime_max = \<lparr>year = 9999, month = 12, day = 31, hour = 23, minute = 59, second = 59,
                    microsecond = 999999\<rparr>"

text \<open>
  \<^verbatim>\<open>now - timedelta(hours=hours)\<close>, as a microsecond count; OverflowError when the result is
  not a representable datetime.
\<close>

definition timedelta_sub :: "datetime \<Rightarrow> int \<Rightarrow> py_error + int" where
  "timedelta_sub now hours =
     (let c = to_micro now - hours * 3600 * 1000000
      in if to_micro datetime_min \<le> c \<and> c \<le> to_micro datetime_max then Inr c
         else Inl OverflowError)"

text \<open>
  \<^verbatim>\<open>strftime('%Y-%m-%d %H:%M:%S')\<close>: zero-padded decimal fields, the microseconds dropped
  (four year digits, as for the years from 1000 on).
\<close>

definition digit :: "nat \<Rightarrow> char" where
  "digit n = ''0123456789'' ! (n mod 10)"

definition zpad2 :: "nat \<Rightarrow> string" where
  "zpad2 n = [digit (n div 10), digit n]"

definition zpad4 :: "nat \<Rightarrow> string" where
  "zpad4 n = [digit (n div 1000), digit (n div 100), digit (n div 10), digit n]"

definition zpad6 :: "nat \<Rightarrow> string" where
  "zpad6 n = [digit (n div 100000), digit (n div 10000), digit (n div 1000),
              digit (n div 100), digit (n div 10), digit n]"

definition strftime :: "datetime \<Rightarrow> string" where
  "strftime dt =
     zpad4 (year dt) @ ''-'' @ zpad2 (month dt) @ ''-'' @ zpad2 (day dt) @ '' '' @
     zpad2 (hour dt) @ '':'' @ zpad2 (minute dt) @ '':'' @ zpad2 (second dt)"

text \<open>\<^verbatim>\<open>isoformat()\<close>: the microseconds are printed only when they are not zero.\<close>

definition isoformat :: "datetime \<Rightarrow> string" where
  "isoformat dt =
     zpad4 (year dt) @ ''-'' @ zpad2 (month dt) @ ''-'' @ zpad2 (day dt) @ ''T'' @
     zpad2 (hour dt) @ '':'' @ zpad2 (minute dt) @ '':'' @ zpad2 (second dt) @
     (if microsecond dt = 0 then [] else ''.'' @ zpad6 (microsecond dt))"

text \<open>
  \<^verbatim>\<open>datetime.strptime(s, '%Y-%m-%d %H:%M:%S')\<close> belongs to the standard library and is a
  parameter \<open>strptime :: string \<Rightarrow> datetime option\<close> of the functions below (\<open>None\<close> is its
  ValueError). \<open>strptime_strict\<close> is its restriction to the canonical 19-character form that
  \<open>strftime\<close> writes, on which the library returns the same datetime; it rejects every
  other text and serves as the parser of the concrete examples.
\<close>

definition digit_val :: "char \<Rightarrow> nat option" where
  "digit_val c = (if c \<in> set ''0123456789'' then Some ((of_char c :: nat) - 48) else None)"

fun digits_val :: "nat \<Rightarrow> string \<Rightarrow> nat option" where
  "digits_val acc [] = Some acc"
| "digits_val acc (c # cs) =
     (case digit_val c of None \<Rightarrow> None | Some d \<Rightarrow> digits_val (acc * 10 + d) cs)"

definition strptime_strict :: "string \<Rightarrow> datetime option" where
  "strptime_strict s =
     (if length s = 19 \<and> s ! 4 = CHR ''-'' \<and> s ! 7 = CHR ''-'' \<and> s ! 10 = CHR '' ''
         \<and> s ! 13 = CHR '':'' \<and> s ! 16 = CHR '':''
      then (case (digits_val 0 (take 4 s), digits_val 0 (take 2 (drop 5 s)),
                  digits_val 0 (take 2 (drop 8 s)), digits_val 0 (take 2 (drop 11 s)),
                  digits_val 0 (take 2 (drop 14 s)), digits_val 0 (take 2 (drop 17 s))) of
              (Some y, Some m, Some d, Some h, Some mi, Some sec) \<Rightarrow>
                (let dt = \<lparr>year = y, month = m, day = d, hour = h, minute = mi, second = sec,
                           microsecond = 0\<rparr>
                 in if valid_datetime dt then Some dt else None)
            | _ \<Rightarrow> None)
      else None)"

section \<open>Escalation window tracker (responder\_agent.py)\<close>

text \<open>
  The notification log is a text file: \<open>None\<close> when it does not exist, else its content.
  Appending creates the file when it is missing.
\<close>

definition file_append :: "string option \<Rightarrow> string \<Rightarrow> string option" where
  "file_append file text = Some ((case file of None \<Rightarrow> [] | Some content \<Rightarrow> content) @ text)"

text \<open>\<^verbatim>\<open>line.split('[')[1].split(']')[0]\<close>\<close>

definition entry_timestamp :: "string \<Rightarrow> py_error + string" where
  "entry_timestamp line =
     (case list_index (str_split ''['' line) 1 of
        Inl e \<Rightarrow> Inl e
      | Inr p \<Rightarrow> list_index (str_split '']'' p) 0)"

text \<open>The \<^verbatim>\<open>for line in lines\<close> loop of \<^verbatim>\<open>was_manually_handled\<close> and the final \<^verbatim>\<open>return False\<close>.\<close>

fun scan_lines :: "(string \<Rightarrow> datetime option) \<Rightarrow> string \<Rightarrow> int \<Rightarrow> string list
                   \<Rightarrow> py_error + bool" where
  "scan_lines strptime customer_email cutoff [] = Inr False"
| "scan_lines strptime customer_email cutoff (line # lines) =
     (if str_in customer_email line \<and> str_in ''MANUAL_HANDLED'' line then
        (case entry_timestamp line of
           Inl e \<Rightarrow> Inl e
         | Inr timestamp_str \<Rightarrow>
             (case strptime timestamp_str of
                None \<Rightarrow> Inl ValueError
              | Some log_time \<Rightarrow>
                  if to_micro log_time > cutoff then Inr True
                  else scan_lines strptime customer_email cutoff lines))
      else scan_lines strptime customer_email cutoff lines)"

text \<open>The body of the \<^verbatim>\<open>try\<close> block; \<open>now\<close> is the value of \<^verbatim>\<open>datetime.now()\<close>.\<close>

definition was_manually_handled_try :: "(string \<Rightarrow> datetime option) \<Rightarrow> string \<Rightarrow> int
      \<Rightarrow> datetime \<Rightarrow> string option \<Rightarrow> py_error + bool" where
  "was_manually_handled_try strptime customer_email hours now log =
     (case log of
        None \<Rightarrow> Inl FileNotFoundError
      | Some content \<Rightarrow>
          (let lines = readlines content
           in case timedelta_sub now hours of
                Inl e \<Rightarrow> Inl e
              | Inr cutoff \<Rightarrow> scan_lines strptime customer_email cutoff lines))"

text \<open>The bare \<^verbatim>\<open>except: return False\<close> around it.\<close>

definition was_manually_handled :: "(string \<Rightarrow> datetime option) \<Rightarrow> string \<Rightarrow> int
      \<Rightarrow> datetime \<Rightarrow> string option \<Rightarrow> bool" where
  "was_manually_handled strptime customer_email hours now log =
     (case was_manually_handled_try strptime customer_email hours now log of
        Inl e \<Rightarrow> False
      | Inr b \<Rightarrow> b)"

definition manual_handled_line :: "datetime \<Rightarrow> string \<Rightarrow> string" where
  "manual_handled_line now customer_email =
     ''['' @ strftime now @ ''] MANUAL_HANDLED | Customer: '' @ customer_email @ [LF]"

definition mark_as_manually_handled :: "datetime \<Rightarrow> string \<Rightarrow> string option \<Rightarrow> string option" where
  "mark_as_manually_handled now customer_email log =
     file_append log (manual_handled_line now customer_email)"

section \<open>Draft generation (responder\_agent.py)\<close>

text \<open>
  \<^verbatim>\<open>json.loads\<close> is a parameter \<open>json_loads :: string \<Rightarrow> string + parsed\<close>: \<open>Inl\<close> carries
  the text \<^verbatim>\<open>str(e)\<close> of the exception it raises. A parsed value is a JSON object read
  through its two keys: \<^verbatim>\<open>"response"\<close> (a string, when present) and \<^verbatim>\<open>"needs_human"\<close>
  (its truth value, when present).
\<close>

record parsed =
  json_response :: "string option"
  json_needs_human :: "bool option"

text \<open>
  \<^verbatim>\<open>output\<close>, the text handed to \<^verbatim>\<open>json.loads\<close>, is \<open>clean_output final_output\<close>.
  \<open>run\<close> is the outcome of \<^verbatim>\<open>await Runner.run(agent, query, run_config=config)\<close>: \<open>Inl\<close> the
  text \<^verbatim>\<open>str(e)\<close> of the exception it raised (an \<^verbatim>\<open>Exception\<close>, which the handler
  catches), \<open>Inr\<close> the string \<^verbatim>\<open>final_output\<close> of its result. The conversation history the
  function reads first is not used in the prompt and changes no store. The function
  returns the pair \<^verbatim>\<open>(response, reason)\<close>; \<^verbatim>\<open>None\<close> is \<open>None\<close>.
\<close>

definition clean_output :: "string \<Rightarrow> string" where
  "clean_output final_output =
     str_strip (str_replace ''```'' [] (str_replace ''```json'' [] (str_strip final_output)))"

definition generate_ai_response :: "(string \<Rightarrow> string + parsed) \<Rightarrow> string + string
      \<Rightarrow> string option \<times> string option" where
  "generate_ai_response json_loads run =
     (case run of
        Inl e \<Rightarrow> (None, Some e)
      | Inr final_output \<Rightarrow>
          (let output = clean_output final_output
           in case json_loads output of
                Inl e \<Rightarrow> (None, Some e)
              | Inr p \<Rightarrow>
                  (let resp = dict_get (json_response p) []
                   in if str_in ''NEEDS_HUMAN_INTERVENTION'' resp then
                        (case list_index (str_split ''NEEDS_HUMAN_INTERVENTION:'' resp) 1 of
                           Inl e \<Rightarrow> (None, Some ''list index out of range'')
                         | Inr part \<Rightarrow> (None, Some (str_strip part)))
                      else (Some resp,
                            if \<not> dict_get (json_needs_human p) False then None
                            else Some ''Complex query''))))"

text \<open>\<^verbatim>\<open>if ai_response:\<close> holds for a string that is neither \<^verbatim>\<open>None\<close> nor empty.\<close>

definition truthy :: "string option \<Rightarrow> bool" where
  "truthy x = (case x of None \<Rightarrow> False | Some s \<Rightarrow> s \<noteq> [])"

section \<open>Durable stores and the processing pass (responder\_agent.py)\<close>

record reply =
  from_email :: "string option"
  subject :: "string option"
  body :: "string option"
  timestamp :: "string option"
  gmail_link :: "string option"

record conversation =
  conv_timestamp :: string
  customer_email :: string
  customer_name :: string
  customer_message :: string
  ai_response :: "string option"
  needs_human :: bool
  escalation_reason :: "string option"

text \<open>
  The four files the pass reads and writes. A JSON file is \<open>None\<close> when it is missing or
  does not parse, else the list it holds; a text file is \<open>None\<close> when it is missing.
  Writing a file succeeds.
\<close>

record stores =
  replies_json :: "reply list option"
  conversation_log :: "conversation list option"
  notification_log :: "string option"
  reply_log :: "string option"

record stats =
  ai_responded :: nat
  escalated_to_human :: nat
  skipped_manual :: nat
  failed :: nat

definition load_json_file :: "'a list option \<Rightarrow> 'a list" where
  "load_json_file file = (case file of None \<Rightarrow> [] | Some data \<Rightarrow> data)"

definition save_json_file :: "'a list \<Rightarrow> 'a list option" where
  "save_json_file data = Some data"

definition log_reply_status :: "datetime \<Rightarrow> string \<Rightarrow> string \<Rightarrow> string \<Rightarrow> stores \<Rightarrow> stores" where
  "log_reply_status now email status detail fs =
     fs\<lparr>reply_log := file_append (reply_log fs)
          (''['' @ strftime now @ ''] '' @ status @ '' | Customer: '' @ email @ '' | ''
             @ detail @ [LF])\<rparr>"

definition log_conversation :: "datetime \<Rightarrow> string \<Rightarrow> string \<Rightarrow> string \<Rightarrow> string option
      \<Rightarrow> bool \<Rightarrow> string option \<Rightarrow> stores \<Rightarrow> stores" where
  "log_conversation now email name msg response human reason fs =
     (let conversations = load_json_file (conversation_log fs)
      in fs\<lparr>conversation_log := save_json_file (conversations @
           [\<lparr>conv_timestamp = isoformat now, customer_email = email, customer_name = name,
             customer_message = msg, ai_response = response, needs_human = human,
             escalation_reason = reason\<rparr>])\<rparr>)"

text \<open>
  \<^verbatim>\<open>value.splitlines()\<close> on ASCII text: a line ends at a line feed, a carriage return (with
  a line feed that follows it), a vertical tab, a form feed or one of the separators
  0x1C to 0x1E; the terminators are dropped.
\<close>

definition is_line_boundary :: "char \<Rightarrow> bool" where
  "is_line_boundary c =
     ((10 \<le> (of_char c :: nat) \<and> (of_char c :: nat) \<le> 13)
      \<or> (28 \<le> (of_char c :: nat) \<and> (of_char c :: nat) \<le> 30))"

fun str_splitlines :: "string \<Rightarrow> string list" where
  "str_splitlines [] = []"
| "str_splitlines [c] = (if is_line_boundary c then [[]] else [[c]])"
| "str_splitlines (c # d # cs) =
     (if c = CR \<and> d = LF then [] # str_splitlines cs
      else if is_line_boundary c then [] # str_splitlines (d # cs)
      else (case str_splitlines (d # cs) of
              [] \<Rightarrow> [[c]]
            | l # ls \<Rightarrow> (c # l) # ls))"

text \<open>
  Building a mail belongs to the standard library's \<^verbatim>\<open>email\<close> package. Assigning a header,
  \<^verbatim>\<open>msg[name] = value\<close>, raises for a value the package refuses; the parameter
  \<open>header_ok name value\<close> of the functions below says whether it accepts the value. The
  package refuses every value of more than one line, which is all that decides for an
  unstructured header such as Subject, and its parser of address headers refuses further
  malformed values. \<open>unfolded_header\<close> is the check of the lines alone; it serves as the
  package of the concrete examples, whose addresses are plain. The headers built from the
  configured sender address are taken to be accepted, and the plain and HTML bodies are
  accepted whatever they say.
\<close>

definition unfolded_header :: "string \<Rightarrow> string \<Rightarrow> bool" where
  "unfolded_header name value = (length (str_splitlines value) \<le> 1)"

text \<open>
  The Subject lines: \<^verbatim>\<open>f"Re: {subject}" if not subject.startswith("Re:") else subject\<close> of
  a response, and the siren sign (its four bytes in UTF-8) with the customer's name of a
  notification.
\<close>

definition response_subject :: "string \<Rightarrow> string" where
  "response_subject subj = (if \<not> prefix ''Re:'' subj then ''Re: '' @ subj else subj)"

definition notification_subject :: "string \<Rightarrow> string" where
  "notification_subject name =
     [CHR 0xF0, CHR 0x9F, CHR 0x9A, CHR 0xA8] @ '' Customer Needs Attention: '' @ name"

text \<open>
  The mail transport is opaque: \<open>smtp\<close> says whether connecting, logging in and sending
  went through without an exception. Both functions build the message inside their
  \<^verbatim>\<open>try\<close> block before they reach the transport, and return \<^verbatim>\<open>False\<close> on any exception:
  \<^verbatim>\<open>send_email_response\<close> returns \<^verbatim>\<open>True\<close> when its Subject and To headers are accepted
  and the mail is sent; \<^verbatim>\<open>send_notification_to_user\<close> when its Subject header is accepted
  and the mail is sent, and it then appends its line to the notification log. What the
  mails say does not reach any store.
\<close>

definition send_email_response :: "(string \<Rightarrow> string \<Rightarrow> bool) \<Rightarrow> bool \<Rightarrow> string \<Rightarrow> string
      \<Rightarrow> bool" where
  "send_email_response header_ok smtp to_email subj =
     (header_ok ''Subject'' (response_subject subj) \<and> header_ok ''To'' to_email \<and> smtp)"

definition send_notification_to_user :: "(string \<Rightarrow> string \<Rightarrow> bool) \<Rightarrow> bool \<Rightarrow> datetime
      \<Rightarrow> string \<Rightarrow> string \<Rightarrow> string option \<Rightarrow> stores \<Rightarrow> bool \<times> stores" where
  "send_notification_to_user header_ok smtp now email name reason fs =
     (if header_ok ''Subject'' (notification_subject name) \<and> smtp then
        (True, fs\<lparr>notification_log := file_append (notification_log fs)
                 (''['' @ strftime now @ ''] NOTIFICATION_SENT | Customer: '' @ email
                    @ '' | Reason: '' @ fmt_opt reason @ [LF])\<rparr>)
      else (False, fs))"

text \<open>\<^verbatim>\<open>xs.remove(x)\<close> drops the first element equal to \<open>x\<close> and raises ValueError without one.\<close>

definition list_remove :: "'a list \<Rightarrow> 'a \<Rightarrow> py_error + 'a list" where
  "list_remove xs x = (if x \<in> set xs then Inr (remove1 x xs) else Inl ValueError)"

text \<open>
  What the outside world answers during one iteration of the loop: the clock readings of
  the calls to \<^verbatim>\<open>datetime.now()\<close>, the outcome of the generator call, and whether the
  transport sends the one mail of the iteration.
\<close>

record env =
  now_check :: datetime
  runner_run :: "string + string"
  smtp_ok :: bool
  now_notify :: datetime
  now_mark :: datetime
  now_conv :: datetime
  now_status :: datetime

text \<open>
  The variables of \<^verbatim>\<open>process_customer_replies\<close> while the loop runs. The product
  information it also loads only feeds the prompt of the generator.
\<close>

record pass_state =
  files :: stores
  replies :: "reply list"
  counters :: stats

definition reply_email :: "reply \<Rightarrow> string" where
  "reply_email r = str_lower (dict_get (from_email r) [])"

definition reply_body :: "reply \<Rightarrow> string" where
  "reply_body r = dict_get (body r) []"

definition reply_subject :: "reply \<Rightarrow> string" where
  "reply_subject r = dict_get (subject r) ''No Subject''"

definition reply_name :: "reply \<Rightarrow> string" where
  "reply_name r = str_title (case str_split ''@'' (reply_email r) of [] \<Rightarrow> [] | p # ps \<Rightarrow> p)"

text \<open>One iteration of \<^verbatim>\<open>for reply in replies[:]\<close>.\<close>

definition process_reply :: "(string \<Rightarrow> datetime option) \<Rightarrow> (string \<Rightarrow> string + parsed)
      \<Rightarrow> (string \<Rightarrow> string \<Rightarrow> bool) \<Rightarrow> env
      \<Rightarrow> reply \<Rightarrow> pass_state \<Rightarrow> py_error + pass_state" where
  "process_reply strptime json_loads header_ok e r st =
     (let email = reply_email r;
          name = reply_name r;
          subject' = reply_subject r;
          body' = reply_body r
      in if was_manually_handled strptime email 24 (now_check e) (notification_log (files st))
         then Inr (st\<lparr>counters := (counters st)\<lparr>skipped_manual := skipped_manual (counters st) + 1\<rparr>,
                      files := log_reply_status (now_status e) email ''SKIPPED_MANUAL''
                                 ''Handled within last 24 hours'' (files st)\<rparr>)
         else
           (case generate_ai_response json_loads (runner_run e) of
              (response, reason) \<Rightarrow>
                if truthy response then
                  (if send_email_response header_ok (smtp_ok e) email subject' then
                     (let fs1 = log_conversation (now_conv e) email name body' response False None
                                  (files st);
                          fs2 = log_reply_status (now_status e) email ''AI_RESPONDED''
                                  (''Subject: '' @ subject') fs1
                      in case list_remove (replies st) r of
                           Inl err \<Rightarrow> Inl err
                         | Inr rs \<Rightarrow>
                             Inr (st\<lparr>files := fs2, replies := rs,
                                     counters := (counters st)\<lparr>ai_responded :=
                                       ai_responded (counters st) + 1\<rparr>\<rparr>))
                   else Inr st)
                else
                  (case send_notification_to_user header_ok (smtp_ok e) (now_notify e) email
                          name reason (files st) of
                     (sent, fs0) \<Rightarrow>
                       if sent then
                         (let fs1 = fs0\<lparr>notification_log :=
                                      mark_as_manually_handled (now_mark e) email
                                        (notification_log fs0)\<rparr>;
                              fs2 = log_conversation (now_conv e) email name body' None True
                                      reason fs1;
                              fs3 = log_reply_status (now_status e) email ''ESCALATED''
                                      (''Reason: '' @ fmt_opt reason) fs2
                          in case list_remove (replies st) r of
                               Inl err \<Rightarrow> Inl err
                             | Inr rs \<Rightarrow>
                                 Inr (st\<lparr>files := fs3, replies := rs,
                                         counters := (counters st)\<lparr>escalated_to_human :=
                                           escalated_to_human (counters st) + 1\<rparr>\<rparr>))
                       else
                         Inr (st\<lparr>counters := (counters st)\<lparr>failed := failed (counters st) + 1\<rparr>,
                                 files := log_reply_status (now_status e) email
                                            ''NOTIFICATION_FAILED'' (fmt_opt reason) fs0\<rparr>))))"

text \<open>
  The loop over the copy \<^verbatim>\<open>replies[:]\<close>: iteration \<open>i\<close> meets the environment \<open>envs i\<close>.
  An exception ends the pass.
\<close>

fun process_loop :: "(string \<Rightarrow> datetime option) \<Rightarrow> (string \<Rightarrow> string + parsed)
      \<Rightarrow> (string \<Rightarrow> string \<Rightarrow> bool) \<Rightarrow> (nat \<Rightarrow> env)
      \<Rightarrow> nat \<Rightarrow> reply list \<Rightarrow> pass_state \<Rightarrow> py_error + pass_state" where
  "process_loop strptime json_loads header_ok envs i [] st = Inr st"
| "process_loop strptime json_loads header_ok envs i (r # rs) st =
     (case process_reply strptime json_loads header_ok (envs i) r st of
        Inl err \<Rightarrow> Inl err
      | Inr st' \<Rightarrow> process_loop strptime json_loads header_ok envs (Suc i) rs st')"

definition initial_state :: "stores \<Rightarrow> pass_state" where
  "initial_state fs =
     \<lparr>files = fs, replies = load_json_file (replies_json fs),
      counters = \<lparr>ai_responded = 0, escalated_to_human = 0, skipped_manual = 0, failed = 0\<rparr>\<rparr>"

text \<open>The whole pass: the stores it leaves and the statistics it prints.\<close>

definition process_customer_replies :: "(string \<Rightarrow> datetime option)
      \<Rightarrow> (string \<Rightarrow> string + parsed)
      \<Rightarrow> (string \<Rightarrow> string \<Rightarrow> bool) \<Rightarrow> (nat \<Rightarrow> env) \<Rightarrow> stores \<Rightarrow> py_error + stores \<times> stats" where
  "process_customer_replies strptime json_loads header_ok envs fs =
     (case process_loop strptime json_loads header_ok envs 0 (load_json_file (replies_json fs))
             (initial_state fs) of
        Inl err \<Rightarrow> Inl err
      | Inr st \<Rightarrow> Inr ((files st)\<lparr>replies_json := save_json_file (replies st)\<rparr>, counters st))"

text \<open>
  The branch an iteration takes, named after the status it logs (a failed delivery of an
  AI response logs nothing).
\<close>

datatype outcome = SkippedManual | AiResponded | SendFailed | Escalated | NotificationFailed

definition step_outcome :: "(string \<Rightarrow> datetime option) \<Rightarrow> (string \<Rightarrow> string + parsed)
      \<Rightarrow> (string \<Rightarrow> string \<Rightarrow> bool) \<Rightarrow> env
      \<Rightarrow> reply \<Rightarrow> stores \<Rightarrow> outcome" where
  "step_outcome strptime json_loads header_ok e r fs =
     (if was_manually_handled strptime (reply_email r) 24 (now_check e) (notification_log fs)
      then SkippedManual
      else if truthy (fst (generate_ai_response json_loads (runner_run e)))
      then (if send_email_response header_ok (smtp_ok e) (reply_email r) (reply_subject r)
            then AiResponded else SendFailed)
      else (if fst (send_notification_to_user header_ok (smtp_ok e) (now_notify e)
                      (reply_email r) (reply_name r)
                      (snd (generate_ai_response json_loads (runner_run e))) fs)
            then Escalated else NotificationFailed))"

definition terminal :: "outcome \<Rightarrow> bool" where
  "terminal out = (out = AiResponded \<or> out = Escalated)"

text \<open>The outcomes of the iterations of a loop, in order.\<close>

fun loop_outcomes :: "(string \<Rightarrow> datetime option) \<Rightarrow> (string \<Rightarrow> string + parsed)
      \<Rightarrow> (string \<Rightarrow> string \<Rightarrow> bool) \<Rightarrow> (nat \<Rightarrow> env)
      \<Rightarrow> nat \<Rightarrow> reply list \<Rightarrow> pass_state \<Rightarrow> outcome list" where
  "loop_outcomes strptime json_loads header_ok envs i [] st = []"
| "loop_outcomes strptime json_loads header_ok envs i (r # rs) st =
     step_outcome strptime json_loads header_ok (envs i) r (files st) #
       (case process_reply strptime json_loads header_ok (envs i) r st of
          Inl err \<Rightarrow> []
        | Inr st' \<Rightarrow> loop_outcomes strptime json_loads header_ok envs (Suc i) rs st')"

definition pass_outcomes :: "(string \<Rightarrow> datetime option) \<Rightarrow> (string \<Rightarrow> string + parsed)
      \<Rightarrow> (string \<Rightarrow> string \<Rightarrow> bool)
      \<Rightarrow> (nat \<Rightarrow> env) \<Rightarrow> stores \<Rightarrow> outcome list" where
  "pass_outcomes strptime json_loads header_ok envs fs =
     loop_outcomes strptime json_loads header_ok envs 0 (load_json_file (replies_json fs))
       (initial_state fs)"

section \<open>Reply discovery: the search predicate (read\_reply\_tracker.py)\<close>

text \<open>
  \<^verbatim>\<open>build_or_query\<close> writes an IMAP search key over the addresses: \<^verbatim>\<open>FROM "a"\<close> for one,
  \<^verbatim>\<open>OR FROM "a" FROM "b"\<close> for two, and \<^verbatim>\<open>OR (left) (right)\<close> over the two halves for more.
  The f-string prints a half that is \<^verbatim>\<open>None\<close> as the text None.
\<close>

definition DQ :: char where
  "DQ = CHR 0x22"

definition BS :: char where
  "BS = CHR 0x5C"

function build_or_query :: "string list \<Rightarrow> string option" where
  "build_or_query emails =
     (if emails = [] then None
      else if length emails = 1 then Some (''FROM '' @ [DQ] @ emails ! 0 @ [DQ])
      else if length emails = 2 then
        Some (''OR FROM '' @ [DQ] @ emails ! 0 @ [DQ] @ '' FROM '' @ [DQ] @ emails ! 1 @ [DQ])
      else
        (let mid = length emails div 2
         in Some (''OR ('' @ fmt_opt (build_or_query (take mid emails)) @ '') (''
                    @ fmt_opt (build_or_query (drop mid emails)) @ '')'')))"
  by pat_completeness auto
termination
proof (relation "measure length")
  fix emails :: "string list" and mid :: nat
  assume a: "emails \<noteq> []" "length emails \<noteq> 1" "length emails \<noteq> 2"
    and m: "mid = length emails div 2"
  from a(1) have "0 < length emails" by simp
  with a(2,3) have "3 \<le> length emails" by arith
  with m have "0 < mid" "mid < length emails" by auto
  then show "(take mid emails, emails) \<in> measure length"
    and "(drop mid emails, emails) \<in> measure length"
    by auto
qed simp

declare build_or_query.simps [simp del]

text \<open>
  The shape the specification describes, as a tree: no predicate for the empty list, a
  direct match for one address, a pairwise OR for two, and for more the OR of the trees of
  the two halves. \<open>render\<close> writes a tree in the prefix syntax: an OR of two direct matches
  bare, any other OR with both operands in parentheses.
\<close>

datatype search_key = From string | Or search_key search_key

function or_tree :: "string list \<Rightarrow> search_key option" where
  "or_tree [] = None"
| "or_tree [a] = Some (From a)"
| "or_tree [a, b] = Some (Or (From a) (From b))"
| "or_tree (a # b # c # ds) =
     (let emails = a # b # c # ds; mid = length emails div 2
      in case (or_tree (take mid emails), or_tree (drop mid emails)) of
           (Some l, Some r) \<Rightarrow> Some (Or l r)
         | _ \<Rightarrow> None)"
  by pat_completeness auto
termination
  by (relation "measure length") auto

declare or_tree.simps(4) [simp del]

fun is_from :: "search_key \<Rightarrow> bool" where
  "is_from (From a) = True"
| "is_from (Or l r) = False"

fun render :: "search_key \<Rightarrow> string" where
  "render (From a) = ''FROM '' @ [DQ] @ a @ [DQ]"
| "render (Or l r) =
     (if is_from l \<and> is_from r then ''OR '' @ render l @ '' '' @ render r
      else ''OR ('' @ render l @ '') ('' @ render r @ '')'')"

text \<open>
  Modelled from the spec: the mail transport that evaluates a search predicate is outside
  the repository; the specification requires of it OR composition and "from address"
  matching. \<open>matches\<close> is that meaning of a tree, with the test of one address against one
  message as the parameter \<open>from_matches\<close>. \<open>parse_key\<close> reads the prefix syntax the way an
  IMAP server does: a quoted string ends at the first unescaped double quote, a backslash
  escapes a double quote or a backslash, a line break is not allowed in it, and
  parentheses group one key. Its fuel bounds the nesting. \<open>query_matches\<close> is the
  evaluation of a predicate text against a message; a text that does not parse matches
  nothing.
\<close>

fun matches :: "(string \<Rightarrow> 'm \<Rightarrow> bool) \<Rightarrow> search_key \<Rightarrow> 'm \<Rightarrow> bool" where
  "matches from_matches (From a) m = from_matches a m"
| "matches from_matches (Or l r) m = (matches from_matches l m \<or> matches from_matches r m)"

fun read_quoted :: "string \<Rightarrow> (string \<times> string) option" where
  "read_quoted [] = None"
| "read_quoted [c] = (if c = DQ then Some ([], []) else None)"
| "read_quoted (c # d # ds) =
     (if c = DQ then Some ([], d # ds)
      else if c = CR \<or> c = LF then None
      else if c = BS then
        (if d = DQ \<or> d = BS then
           (case read_quoted ds of None \<Rightarrow> None | Some (a, rest) \<Rightarrow> Some (d # a, rest))
         else None)
      else (case read_quoted (d # ds) of None \<Rightarrow> None | Some (a, rest) \<Rightarrow> Some (c # a, rest)))"

fun parse_key :: "nat \<Rightarrow> string \<Rightarrow> (search_key \<times> string) option" where
  "parse_key 0 s = None"
| "parse_key (Suc n) s =
     (if prefix (''FROM '' @ [DQ]) s then
        (case read_quoted (drop 6 s) of
           None \<Rightarrow> None
         | Some (a, rest) \<Rightarrow> Some (From a, rest))
      else if prefix ''OR '' s then
        (case parse_key n (drop 3 s) of
           None \<Rightarrow> None
         | Some (l, s1) \<Rightarrow>
             (case s1 of
                [] \<Rightarrow> None
              | c # s2 \<Rightarrow>
                  if c = CHR '' '' then
                    (case parse_key n s2 of
                       None \<Rightarrow> None
                     | Some (r, s3) \<Rightarrow> Some (Or l r, s3))
                  else None))
      else if prefix ''('' s then
        (case parse_key n (drop 1 s) of
           None \<Rightarrow> None
         | Some (k, s1) \<Rightarrow>
             (case s1 of
                [] \<Rightarrow> None
              | c # s2 \<Rightarrow> if c = CHR '')'' then Some (k, s2) else None))
      else None)"

definition query_matches :: "(string \<Rightarrow> 'm \<Rightarrow> bool) \<Rightarrow> string option \<Rightarrow> 'm \<Rightarrow> bool" where
  "query_matches from_matches query m =
     (case query of
        None \<Rightarrow> False
      | Some s \<Rightarrow>
          (case parse_key (length s) s of
             Some (k, []) \<Rightarrow> matches from_matches k m
           | _ \<Rightarrow> False))"

section \<open>Vocabulary of the properties\<close>

text \<open>
  A line mentions a recipient when the test of \<^verbatim>\<open>was_manually_handled\<close> selects it; an
  entry is malformed when its timestamp cannot be cut out or parsed. \<open>log_lines\<close> are the
  lines of a notification log, and a log has complete lines when it is missing, empty or
  ends with a line feed (every writer in the source ends its line with one).
\<close>

definition mentions :: "string \<Rightarrow> string \<Rightarrow> bool" where
  "mentions email line = (str_in email line \<and> str_in ''MANUAL_HANDLED'' line)"

definition malformed_entry :: "(string \<Rightarrow> datetime option) \<Rightarrow> string \<Rightarrow> bool" where
  "malformed_entry strptime line =
     (case entry_timestamp line of Inl e \<Rightarrow> True | Inr ts \<Rightarrow> strptime ts = None)"

definition complete_lines :: "string option \<Rightarrow> bool" where
  "complete_lines log =
     (case log of None \<Rightarrow> True | Some content \<Rightarrow> content = [] \<or> last content = LF)"

definition log_lines :: "string option \<Rightarrow> string list" where
  "log_lines log = (case log of None \<Rightarrow> [] | Some content \<Rightarrow> readlines content)"

text \<open>Concrete clock readings and logs for the examples.\<close>

definition sample_mark_time :: datetime where
  "sample_mark_time = \<lparr>year = 2024, month = 3, day = 1, hour = 10, minute = 0, second = 0,
                         microsecond = 500000\<rparr>"

definition sample_query_time :: datetime where
  "sample_query_time = \<lparr>year = 2024, month = 3, day = 2, hour = 10, minute = 0, second = 0,
                          microsecond = 200000\<rparr>"

definition sample_early_query :: datetime where
  "sample_early_query = \<lparr>year = 2024, month = 3, day = 1, hour = 12, minute = 0, second = 0,
                           microsecond = 0\<rparr>"

definition sample_late_query :: datetime where
  "sample_late_query = \<lparr>year = 2024, month = 3, day = 2, hour = 10, minute = 0, second = 0,
                          microsecond = 500000\<rparr>"

definition sample_no_bracket_log :: string where
  "sample_no_bracket_log = ''MANUAL_HANDLED | Customer: a@x.com'' @ [LF]"

definition sample_bad_time_log :: string where
  "sample_bad_time_log = ''[yesterday] MANUAL_HANDLED | Customer: a@x.com'' @ [LF]"

text \<open>
  The replies of a pass that reach a terminal outcome, the state of the loop before
  iteration \<open>i\<close>, the counter an outcome increments, and the email and message by which a
  conversation entry and a reply are compared.
\<close>

definition bump :: "outcome \<Rightarrow> stats \<Rightarrow> stats" where
  "bump out c =
     (case out of
        SkippedManual \<Rightarrow> c\<lparr>skipped_manual := skipped_manual c + 1\<rparr>
      | AiResponded \<Rightarrow> c\<lparr>ai_responded := ai_responded c + 1\<rparr>
      | SendFailed \<Rightarrow> c
      | Escalated \<Rightarrow> c\<lparr>escalated_to_human := escalated_to_human c + 1\<rparr>
      | NotificationFailed \<Rightarrow> c\<lparr>failed := failed c + 1\<rparr>)"

definition terminal_replies :: "reply list \<Rightarrow> outcome list \<Rightarrow> reply list" where
  "terminal_replies rs outs = map fst (filter (\<lambda>(r, out). terminal out) (zip rs outs))"

definition state_at :: "(string \<Rightarrow> datetime option) \<Rightarrow> (string \<Rightarrow> string + parsed)
      \<Rightarrow> (string \<Rightarrow> string \<Rightarrow> bool)
      \<Rightarrow> (nat \<Rightarrow> env) \<Rightarrow> stores \<Rightarrow> nat \<Rightarrow> py_error + pass_state" where
  "state_at strptime json_loads header_ok envs fs i =
     process_loop strptime json_loads header_ok envs 0 (take i (load_json_file (replies_json fs)))
       (initial_state fs)"

definition entry_key :: "conversation \<Rightarrow> string \<times> string" where
  "entry_key c = (customer_email c, customer_message c)"

definition reply_key :: "reply \<Rightarrow> string \<times> string" where
  "reply_key r = (reply_email r, reply_body r)"

definition zero_stats :: stats where
  "zero_stats = \<lparr>ai_responded = 0, escalated_to_human = 0, skipped_manual = 0, failed = 0\<rparr>"

text \<open>
  A sample pass: two replies of one sender, a generator that raises or answers, a parser
  that knows the one answer, and clocks that read 10:00:00.5 in the first iteration and
  12:00:00 afterwards.
\<close>

definition sample_reply_a :: reply where
  "sample_reply_a = \<lparr>from_email = Some ''a@x.com'', subject = Some ''Re: Offer'',
                       body = Some ''What does it cost?'',
                       timestamp = Some ''2024-03-01T09:00:00'', gmail_link = Some []\<rparr>"

definition sample_reply_b :: reply where
  "sample_reply_b = \<lparr>from_email = Some ''a@x.com'', subject = Some ''Re: Offer'',
                       body = Some ''Any news?'',
                       timestamp = Some ''2024-03-01T09:30:00'', gmail_link = Some []\<rparr>"

definition sample_stores :: "reply list \<Rightarrow> stores" where
  "sample_stores queue = \<lparr>replies_json = Some queue, conversation_log = None,
                            notification_log = None, reply_log = None\<rparr>"

definition sample_env :: "datetime \<Rightarrow> string + string \<Rightarrow> bool \<Rightarrow> env" where
  "sample_env now run smtp =
     \<lparr>now_check = now, runner_run = run, smtp_ok = smtp, now_notify = now, now_mark = now,
      now_conv = now, now_status = now\<rparr>"

definition sample_envs_error :: "nat \<Rightarrow> env" where
  "sample_envs_error i =
     sample_env (if i = 0 then sample_mark_time else sample_early_query)
       (Inl ''model unavailable'') True"

definition sample_output :: string where
  "sample_output =
     ''```json'' @ [LF] @ ''{\"response\": \"It costs 10 USD.\", \"needs_human\": false}''
       @ [LF] @ ''```''"

definition sample_loads :: "string \<Rightarrow> string + parsed" where
  "sample_loads s =
     (if s = ''{\"response\": \"It costs 10 USD.\", \"needs_human\": false}''
      then Inr \<lparr>json_response = Some ''It costs 10 USD.'', json_needs_human = Some False\<rparr>
      else Inl ''Expecting value: line 1 column 1 (char 0)'')"

definition sample_envs_send_fails :: "nat \<Rightarrow> env" where
  "sample_envs_send_fails i = sample_env sample_mark_time (Inr sample_output) False"

definition sample_envs_notify_fails :: "nat \<Rightarrow> env" where
  "sample_envs_notify_fails i = sample_env sample_mark_time (Inl ''model unavailable'') False"

definition sample_notification_line :: string where
  "sample_notification_line =
     ''[2024-03-01 10:00:00] NOTIFICATION_SENT | Customer: a@x.com | Reason: model unavailable''
       @ [LF]"

definition sample_envs_later :: "nat \<Rightarrow> env" where
  "sample_envs_later i = sample_env sample_early_query (Inl ''model unavailable'') True"




definition sender_is :: "string \<Rightarrow> string \<Rightarrow> bool" where
  "sender_is a sender = (sender = a)"


section \<open>Strings and log lines\<close>

lemma str_split_char:
  "str_split [c] s = takeWhile (\<lambda>x. x \<noteq> c) s #
      (case dropWhile (\<lambda>x. x \<noteq> c) s of [] \<Rightarrow> [] | _ # r \<Rightarrow> str_split [c] r)"
proof (induction s)
  case Nil
  show ?case by (subst str_split.simps) simp
next
  case (Cons a s)
  show ?case
  proof (cases "a = c")
    case True
    then show ?thesis by (subst str_split.simps) simp
  next
    case False
    then show ?thesis
      by (subst str_split.simps) (simp add: Cons.IH)
  qed
qed

lemma digit_in_digits: "digit n \<in> set ''0123456789''"
  unfolding digit_def by (rule nth_mem) simp

lemma strftime_chars: "set (strftime t) \<subseteq> set ''0123456789-: ''"
  using digit_in_digits
  by (auto simp: strftime_def zpad4_def zpad2_def)

lemma strftime_no_specials:
  "CHR ''['' \<notin> set (strftime t)" "CHR '']'' \<notin> set (strftime t)"
  "LF \<notin> set (strftime t)" "CR \<notin> set (strftime t)"
  using strftime_chars [of t] by (auto simp: LF_def CR_def)

lemma entry_timestamp_bracketed:
  assumes "CHR ''['' \<notin> set ts" "CHR '']'' \<notin> set ts"
  shows "entry_timestamp (CHR ''['' # ts @ CHR '']'' # rest) = Inr ts"
proof -
  have p: "takeWhile (\<lambda>x. x \<noteq> CHR ''['') (ts @ CHR '']'' # rest)
             = ts @ CHR '']'' # takeWhile (\<lambda>x. x \<noteq> CHR ''['') rest"
    using assms(1) by (subst takeWhile_append2) auto
  have q: "takeWhile (\<lambda>x. x \<noteq> CHR '']'') (ts @ CHR '']'' # tail) = ts" for tail
    using assms(2) by (subst takeWhile_append2) auto
  have "str_split ''['' (CHR ''['' # ts @ CHR '']'' # rest)
          = [] # str_split ''['' (ts @ CHR '']'' # rest)"
    by (subst str_split_char) simp
  also have "str_split ''['' (ts @ CHR '']'' # rest)
          = (ts @ CHR '']'' # takeWhile (\<lambda>x. x \<noteq> CHR ''['') rest) #
            (case dropWhile (\<lambda>x. x \<noteq> CHR ''['') (ts @ CHR '']'' # rest) of
               [] \<Rightarrow> [] | _ # r \<Rightarrow> str_split ''['' r)"
    by (subst str_split_char) (simp only: p)
  finally have one: "list_index (str_split ''['' (CHR ''['' # ts @ CHR '']'' # rest)) 1
          = Inr (ts @ CHR '']'' # takeWhile (\<lambda>x. x \<noteq> CHR ''['') rest)"
    by (simp add: list_index_def)
  have two: "list_index (str_split '']'' (ts @ CHR '']'' # tail)) 0 = Inr ts" for tail
    by (subst str_split_char) (simp add: list_index_def q)
  show ?thesis
    unfolding entry_timestamp_def one by (simp add: two)
qed

lemma entry_timestamp_manual_handled_line:
  "entry_timestamp (manual_handled_line t e) = Inr (strftime t)"
  unfolding manual_handled_line_def
  using entry_timestamp_bracketed [OF strftime_no_specials(1) strftime_no_specials(2)]
  by simp

lemma universal_newlines_id: "CR \<notin> set s \<Longrightarrow> universal_newlines s = s"
  by (induction s rule: universal_newlines.induct) auto

lemma universal_newlines_append:
  "CR \<notin> set ys \<Longrightarrow> ys \<noteq> [] \<Longrightarrow> hd ys \<noteq> LF \<Longrightarrow>
     universal_newlines (xs @ ys) = universal_newlines xs @ ys"
proof (induction xs rule: universal_newlines.induct)
  case 1
  then show ?case by (simp add: universal_newlines_id)
next
  case (2 c)
  then show ?case by (cases ys) (auto simp: universal_newlines_id)
next
  case (3 c d cs)
  then show ?case by auto
qed

lemma universal_newlines_last:
  "s \<noteq> [] \<Longrightarrow> last s = LF \<Longrightarrow> universal_newlines s \<noteq> [] \<and> last (universal_newlines s) = LF"
  by (induction s rule: universal_newlines.induct) (auto split: if_splits)

lemma splitlines_Nil_iff: "splitlines s = [] \<longleftrightarrow> s = []"
  by (cases s) (auto split: list.splits)

lemma splitlines_append:
  "xs = [] \<or> last xs = LF \<Longrightarrow> splitlines (xs @ ys) = splitlines xs @ splitlines ys"
proof (induction xs)
  case Nil
  then show ?case by simp
next
  case (Cons a xs)
  show ?case
  proof (cases "xs = []")
    case True
    with Cons.prems show ?thesis by simp
  next
    case False
    with Cons.prems have "last xs = LF" by simp
    with Cons.IH have ih: "splitlines (xs @ ys) = splitlines xs @ splitlines ys" by simp
    from False have "splitlines xs \<noteq> []" by (simp add: splitlines_Nil_iff)
    then show ?thesis using ih by (auto split: list.splits)
  qed
qed

lemma splitlines_one_line: "LF \<notin> set l \<Longrightarrow> splitlines (l @ [LF]) = [l @ [LF]]"
  by (induction l) auto


section \<open>The escalation window\<close>

lemma readlines_append_line:
  assumes "old = [] \<or> last old = LF" "LF \<notin> set l" "CR \<notin> set l" "l \<noteq> []"
  shows "readlines (old @ l @ [LF]) = readlines old @ [l @ [LF]]"
proof -
  have "hd (l @ [LF]) \<noteq> LF" using assms(2,4) by (cases l) auto
  moreover have "CR \<notin> set (l @ [LF])" using assms(3) by (simp add: CR_def LF_def)
  ultimately have u: "universal_newlines (old @ l @ [LF]) = universal_newlines old @ l @ [LF]"
    by (simp add: universal_newlines_append)
  have "universal_newlines old = [] \<or> last (universal_newlines old) = LF"
    using assms(1) universal_newlines_last [of old] by (cases "old = []") auto
  then show ?thesis
    unfolding readlines_def u using assms(2)
    by (simp add: splitlines_append splitlines_one_line)
qed

lemma scan_lines_skip:
  "\<forall>l\<in>set ls. \<not> mentions e l \<Longrightarrow> scan_lines sp e c (ls @ ms) = scan_lines sp e c ms"
  by (induction ls) (auto simp: mentions_def)

lemma scan_lines_append:
  "scan_lines sp e c (ls @ ms) =
     (case scan_lines sp e c ls of Inr False \<Rightarrow> scan_lines sp e c ms | other \<Rightarrow> other)"
  by (induction ls) (auto split: sum.splits option.splits)

lemma manual_handled_line_mentions:
  assumes "sublist e1 e2"
  shows "mentions e1 (manual_handled_line t e2)"
proof -
  have a: "manual_handled_line t e2
        = (''['' @ strftime t @ ''] '') @ ''MANUAL_HANDLED'' @ ('' | Customer: '' @ e2 @ [LF])"
    by (simp add: manual_handled_line_def)
  have b: "manual_handled_line t e2
        = (''['' @ strftime t @ ''] MANUAL_HANDLED | Customer: '') @ e2 @ [LF]"
    by (simp add: manual_handled_line_def)
  have "sublist ''MANUAL_HANDLED'' (manual_handled_line t e2)"
    unfolding a by (rule sublist_appendI)
  moreover have "sublist e2 (manual_handled_line t e2)"
    unfolding b by (rule sublist_appendI)
  ultimately show ?thesis
    using assms by (auto simp: mentions_def str_in_def intro: sublist_order.order_trans)
qed

lemma manual_handled_line_shape:
  "\<exists>l. manual_handled_line t e = l @ [LF] \<and> l \<noteq> [] \<and> (LF \<notin> set e \<longrightarrow> LF \<notin> set l)
        \<and> (CR \<notin> set e \<longrightarrow> CR \<notin> set l)"
proof -
  let ?l = "''['' @ strftime t @ ''] MANUAL_HANDLED | Customer: '' @ e"
  have "manual_handled_line t e = ?l @ [LF]" by (simp add: manual_handled_line_def)
  moreover have "LF \<notin> set e \<longrightarrow> LF \<notin> set ?l"
    using strftime_no_specials(3) [of t] by (auto simp: LF_def)
  moreover have "CR \<notin> set e \<longrightarrow> CR \<notin> set ?l"
    using strftime_no_specials(4) [of t] by (auto simp: CR_def)
  ultimately show ?thesis by blast
qed

lemma was_manually_handled_after_mark:
  assumes nl: "LF \<notin> set e2" "CR \<notin> set e2"
      and cl: "complete_lines log"
      and others: "\<forall>line\<in>set (log_lines log). \<not> mentions e1 line"
      and sub: "sublist e1 e2"
      and rt: "sp (strftime t) = Some t0"
      and cut: "timedelta_sub q h = Inr c"
    shows "was_manually_handled sp e1 h q (mark_as_manually_handled t e2 log) = (c < to_micro t0)"
proof -
  obtain l where l: "manual_handled_line t e2 = l @ [LF]" "l \<noteq> []" "LF \<notin> set l" "CR \<notin> set l"
    using manual_handled_line_shape [of t e2] nl by blast
  define old where "old = (case log of None \<Rightarrow> [] | Some content \<Rightarrow> content)"
  have old: "old = [] \<or> last old = LF"
    using cl by (auto simp: old_def complete_lines_def split: option.splits)
  have lines_old: "readlines old = log_lines log"
    by (auto simp: old_def log_lines_def readlines_def split: option.splits)
  have new: "mark_as_manually_handled t e2 log = Some (old @ l @ [LF])"
    by (simp add: mark_as_manually_handled_def file_append_def old_def l(1))
  have lines: "readlines (old @ l @ [LF]) = log_lines log @ [manual_handled_line t e2]"
    using readlines_append_line [OF old l(3) l(4) l(2)] by (simp add: lines_old l(1))
  have m: "mentions e1 (manual_handled_line t e2)"
    by (rule manual_handled_line_mentions [OF sub])
  have "scan_lines sp e1 c (log_lines log @ [manual_handled_line t e2])
          = scan_lines sp e1 c [manual_handled_line t e2]"
    by (rule scan_lines_skip [OF others])
  also have "\<dots> = Inr (c < to_micro t0)"
    using m by (simp add: mentions_def entry_timestamp_manual_handled_line rt)
  finally show ?thesis
    by (simp add: was_manually_handled_def was_manually_handled_try_def new lines cut)
qed

lemma to_micro_truncate:
  "to_micro (t\<lparr>microsecond := 0\<rparr>) = to_micro t - int (microsecond t)"
  by (simp add: to_micro_def toordinal_def)

lemma timedelta_sub_24: "timedelta_sub q 24 = Inr c \<Longrightarrow> c = to_micro q - 86400000000"
  by (auto simp: timedelta_sub_def Let_def split: if_splits)

lemma sample_mark_strftime: "strftime sample_mark_time = ''2024-03-01 10:00:00''"
  by (simp add: strftime_def sample_mark_time_def zpad4_def zpad2_def digit_def)

lemma sample_mark_strptime:
  "strptime_strict (strftime sample_mark_time) = Some (sample_mark_time\<lparr>microsecond := 0\<rparr>)"
  unfolding sample_mark_strftime
  by (simp add: strptime_strict_def digit_val_def valid_datetime_def days_in_month_def
      sample_mark_time_def)

lemma sample_mark_micro: "to_micro sample_mark_time = 63844970400500000"
  by (simp add: to_micro_def toordinal_def days_before_year_def days_before_month_def
      days_in_month_def is_leap_def sample_mark_time_def upt_rec)

lemma sample_query_micro: "to_micro sample_query_time = 63845056800200000"
  by (simp add: to_micro_def toordinal_def days_before_year_def days_before_month_def
      days_in_month_def is_leap_def sample_query_time_def upt_rec)

lemma datetime_range_micro:
  "to_micro datetime_min = 86400000000" "to_micro datetime_max = 315537983999999999"
  by (simp_all add: to_micro_def toordinal_def days_before_year_def days_before_month_def
      days_in_month_def is_leap_def datetime_min_def datetime_max_def upt_rec)

lemma sample_query_cutoff: "timedelta_sub sample_query_time 24 = Inr 63844970400200000"
  by (simp add: timedelta_sub_def sample_query_micro datetime_range_micro)

lemma sample_early_micro: "to_micro sample_early_query = 63844977600000000"
  by (simp add: to_micro_def toordinal_def days_before_year_def days_before_month_def
      days_in_month_def is_leap_def sample_early_query_def upt_rec)

lemma sample_late_micro: "to_micro sample_late_query = 63845056800500000"
  by (simp add: to_micro_def toordinal_def days_before_year_def days_before_month_def
      days_in_month_def is_leap_def sample_late_query_def upt_rec)

lemma sample_early_cutoff: "timedelta_sub sample_early_query 24 = Inr 63844891200000000"
  by (simp add: timedelta_sub_def sample_early_micro datetime_range_micro)

lemma sample_late_cutoff: "timedelta_sub sample_late_query 24 = Inr 63844970400500000"
  by (simp add: timedelta_sub_def sample_late_micro datetime_range_micro)

lemma sample_mark_microsecond: "microsecond sample_mark_time = 500000"
  by (simp add: sample_mark_time_def)

lemma scan_lines_malformed:
  assumes "mentions R line" "malformed_entry strptime line"
  shows "\<exists>err. scan_lines strptime R c (line # post) = Inl err"
  using assms by (auto simp: mentions_def malformed_entry_def split: sum.splits)

lemma sample_no_bracket_lines: "readlines sample_no_bracket_log = [] @ sample_no_bracket_log # []"
  by (simp add: sample_no_bracket_log_def readlines_def LF_def CR_def)

lemma sample_bad_time_lines: "readlines sample_bad_time_log = [] @ sample_bad_time_log # []"
  by (simp add: sample_bad_time_log_def readlines_def LF_def CR_def)

lemma sample_no_bracket_malformed:
  "mentions ''a@x.com'' sample_no_bracket_log \<and> malformed_entry sp sample_no_bracket_log"
  by (simp add: mentions_def str_in_def sublist_Cons_right sample_no_bracket_log_def malformed_entry_def
      entry_timestamp_def str_split_char list_index_def LF_def)

lemma sample_bad_time_malformed:
  "mentions ''a@x.com'' sample_bad_time_log \<and> malformed_entry strptime_strict sample_bad_time_log"
  by (simp add: mentions_def str_in_def sublist_Cons_right sample_bad_time_log_def malformed_entry_def
      entry_timestamp_def str_split_char list_index_def LF_def strptime_strict_def)

text \<open>
  C1, as amended. \<^verbatim>\<open>mark_as_manually_handled(R)\<close> at clock reading \<open>T\<close> writes \<open>T\<close> cut to
  whole seconds. When no other line of the log mentions \<open>R\<close>, \<open>R\<close> has no line break and the
  log has complete lines, \<^verbatim>\<open>was_manually_handled(R, 24)\<close> at clock reading \<open>Q\<close> is true
  exactly when \<open>Q\<close> is less than 24 hours after the written time. So it is false for every
  \<open>Q\<close> at or after \<open>T\<close> + 24h, and true for every \<open>Q\<close> up to one second before \<open>T\<close> + 24h.
\<close>

theorem suppression_window:
  assumes "LF \<notin> set R" "CR \<notin> set R"
      and "complete_lines log"
      and "\<forall>line\<in>set (log_lines log). \<not> mentions R line"
      and "strptime (strftime T) = Some (T\<lparr>microsecond := 0\<rparr>)"
      and "microsecond T < 1000000"
      and "timedelta_sub Q 24 = Inr c"
    shows "(was_manually_handled strptime R 24 Q (mark_as_manually_handled T R log)
              \<longleftrightarrow> to_micro Q < to_micro (T\<lparr>microsecond := 0\<rparr>) + 86400000000)
         \<and> (to_micro T + 86400000000 \<le> to_micro Q
              \<longrightarrow> \<not> was_manually_handled strptime R 24 Q (mark_as_manually_handled T R log))
         \<and> (to_micro Q + 1000000 \<le> to_micro T + 86400000000
              \<longrightarrow> was_manually_handled strptime R 24 Q (mark_as_manually_handled T R log))"
proof -
  have "was_manually_handled strptime R 24 Q (mark_as_manually_handled T R log)
          = (c < to_micro (T\<lparr>microsecond := 0\<rparr>))"
    using assms(1-5,7) by (intro was_manually_handled_after_mark) auto
  moreover have "c = to_micro Q - 86400000000"
    using assms(7) by (rule timedelta_sub_24)
  ultimately show ?thesis
    using assms(6) by (auto simp: to_micro_truncate)
qed

theorem suppression_window_witness:
  "was_manually_handled strptime_strict ''a@x.com'' 24 sample_early_query
     (mark_as_manually_handled sample_mark_time ''a@x.com'' None)
   \<and> \<not> was_manually_handled strptime_strict ''a@x.com'' 24 sample_late_query
     (mark_as_manually_handled sample_mark_time ''a@x.com'' None)"
  using suppression_window [of "''a@x.com''" None strptime_strict sample_mark_time
          sample_early_query 63844891200000000]
        suppression_window [of "''a@x.com''" None strptime_strict sample_mark_time
          sample_late_query 63844970400500000]
  by (simp add: LF_def CR_def complete_lines_def log_lines_def sample_mark_strptime
      sample_early_cutoff sample_late_cutoff sample_mark_microsecond sample_mark_micro
      sample_early_micro sample_late_micro to_micro_truncate)

text \<open>
  The claim as stated fails in the last second of the window: marked at 10:00:00.5, the
  entry reads 10:00:00, and a query at 10:00:00.2 of the next day, less than 24 hours
  after the call, is answered with false.
\<close>

theorem suppression_window_counterexample:
  "to_micro sample_mark_time < to_micro sample_query_time
   \<and> to_micro sample_query_time < to_micro sample_mark_time + 24 * 3600 * 1000000
   \<and> \<not> was_manually_handled strptime_strict ''a@x.com'' 24 sample_query_time
         (mark_as_manually_handled sample_mark_time ''a@x.com'' None)"
proof -
  have "was_manually_handled strptime_strict ''a@x.com'' 24 sample_query_time
          (mark_as_manually_handled sample_mark_time ''a@x.com'' None)
        = (63844970400200000 < to_micro (sample_mark_time\<lparr>microsecond := 0\<rparr>))"
    by (rule was_manually_handled_after_mark)
       (simp_all add: LF_def CR_def complete_lines_def log_lines_def sample_mark_strptime
          sample_query_cutoff)
  moreover have "microsecond sample_mark_time = 500000"
    by (simp add: sample_mark_time_def)
  ultimately show ?thesis
    by (simp add: to_micro_truncate sample_mark_micro sample_query_micro)
qed


text \<open>
  C9. The check selects a line by substring containment: when \<open>e1\<close> is a substring of
  \<open>e2\<close>, marking \<open>e2\<close> alone makes \<^verbatim>\<open>was_manually_handled(e1, 24)\<close> true within the window.
  The example has \<open>e1\<close> = b@x.com and \<open>e2\<close> = ab@x.com.
\<close>

theorem substring_suppression:
  assumes "sublist e1 e2" "LF \<notin> set e2" "CR \<notin> set e2"
      and "complete_lines log"
      and "\<forall>line\<in>set (log_lines log). \<not> mentions e1 line"
      and "strptime (strftime T) = Some (T\<lparr>microsecond := 0\<rparr>)"
      and "timedelta_sub Q 24 = Inr c"
      and "to_micro Q < to_micro (T\<lparr>microsecond := 0\<rparr>) + 86400000000"
    shows "was_manually_handled strptime e1 24 Q (mark_as_manually_handled T e2 log)"
proof -
  have "was_manually_handled strptime e1 24 Q (mark_as_manually_handled T e2 log)
          = (c < to_micro (T\<lparr>microsecond := 0\<rparr>))"
    using assms(1-7) by (intro was_manually_handled_after_mark) auto
  moreover have "c = to_micro Q - 86400000000"
    using assms(7) by (rule timedelta_sub_24)
  ultimately show ?thesis using assms(8) by simp
qed

theorem substring_suppression_witness:
  "''b@x.com'' \<noteq> ''ab@x.com'' \<and> sublist ''b@x.com'' ''ab@x.com''
   \<and> was_manually_handled strptime_strict ''b@x.com'' 24 sample_early_query
        (mark_as_manually_handled sample_mark_time ''ab@x.com'' None)"
  using substring_suppression [of "''b@x.com''" "''ab@x.com''" None strptime_strict
          sample_mark_time sample_early_query 63844891200000000]
  by (simp add: sublist_Cons_right LF_def CR_def complete_lines_def log_lines_def sample_mark_strptime
      sample_early_cutoff sample_mark_microsecond sample_mark_micro
      sample_early_micro to_micro_truncate)

text \<open>
  C8. \<^verbatim>\<open>was_manually_handled\<close> returns false instead of raising: for a missing log, for
  every exception of its body, and so whenever the scan reaches a line that mentions the
  recipient and whose timestamp cannot be cut out or parsed.
\<close>

theorem fail_open:
  "\<not> was_manually_handled strptime R hours now None
   \<and> (\<forall>err. was_manually_handled_try strptime R hours now log = Inl err
         \<longrightarrow> \<not> was_manually_handled strptime R hours now log)
   \<and> (\<forall>content pre line post.
         log = Some content \<and> readlines content = pre @ line # post
         \<and> (\<forall>c. timedelta_sub now hours = Inr c \<longrightarrow> scan_lines strptime R c pre \<noteq> Inr True)
         \<and> mentions R line \<and> malformed_entry strptime line
         \<longrightarrow> \<not> was_manually_handled strptime R hours now log)"
proof (intro conjI allI impI)
  show "\<not> was_manually_handled strptime R hours now None"
    by (simp add: was_manually_handled_def was_manually_handled_try_def)
next
  fix err
  assume "was_manually_handled_try strptime R hours now log = Inl err"
  then show "\<not> was_manually_handled strptime R hours now log"
    by (simp add: was_manually_handled_def)
next
  fix content pre line post
  assume a: "log = Some content \<and> readlines content = pre @ line # post
         \<and> (\<forall>c. timedelta_sub now hours = Inr c \<longrightarrow> scan_lines strptime R c pre \<noteq> Inr True)
         \<and> mentions R line \<and> malformed_entry strptime line"
  show "\<not> was_manually_handled strptime R hours now log"
  proof (cases "timedelta_sub now hours")
    case (Inl e)
    with a show ?thesis
      by (simp add: was_manually_handled_def was_manually_handled_try_def)
  next
    case (Inr c)
    with a have pre: "scan_lines strptime R c pre \<noteq> Inr True" by blast
    from a obtain err where "scan_lines strptime R c (line # post) = Inl err"
      using scan_lines_malformed by blast
    with pre have "\<exists>e. scan_lines strptime R c (pre @ line # post) = Inl e"
      by (cases "scan_lines strptime R c pre") (auto simp: scan_lines_append)
    with a Inr show ?thesis
      by (auto simp: was_manually_handled_def was_manually_handled_try_def)
  qed
qed

theorem fail_open_witness:
  "\<not> was_manually_handled strptime_strict ''a@x.com'' 24 sample_early_query
       (Some sample_no_bracket_log)
   \<and> \<not> was_manually_handled strptime_strict ''a@x.com'' 24 sample_early_query
       (Some sample_bad_time_log)
   \<and> was_manually_handled_try strptime_strict ''a@x.com'' 24 sample_early_query None
       = Inl FileNotFoundError
   \<and> \<not> was_manually_handled strptime_strict ''a@x.com'' 24 sample_early_query None"
proof -
  note third = fail_open [THEN conjunct2, THEN conjunct2, rule_format]
  have "\<not> was_manually_handled strptime_strict ''a@x.com'' 24 sample_early_query
       (Some sample_no_bracket_log)"
    by (rule third [where content = sample_no_bracket_log and pre = "[]"
                       and line = sample_no_bracket_log and post = "[]"])
       (simp add: sample_no_bracket_lines sample_no_bracket_malformed)
  moreover have "\<not> was_manually_handled strptime_strict ''a@x.com'' 24 sample_early_query
       (Some sample_bad_time_log)"
    by (rule third [where content = sample_bad_time_log and pre = "[]"
                       and line = sample_bad_time_log and post = "[]"])
       (simp add: sample_bad_time_lines sample_bad_time_malformed)
  moreover have "was_manually_handled_try strptime_strict ''a@x.com'' 24 sample_early_query None
       = Inl FileNotFoundError"
    by (simp add: was_manually_handled_try_def)
  moreover have "\<not> was_manually_handled strptime_strict ''a@x.com'' 24 sample_early_query None"
    using fail_open [of strptime_strict "''a@x.com''" 24 sample_early_query None] by blast
  ultimately show ?thesis by blast
qed


section \<open>The processing pass\<close>

lemma reply_email_normalised:
  "from_email r = Some a \<Longrightarrow> str_lower a = a \<Longrightarrow> reply_email r = a"
  by (simp add: reply_email_def dict_get_def)

lemma process_reply_send_failed:
  "step_outcome sp jl hk e r (files st) = SendFailed \<Longrightarrow> process_reply sp jl hk e r st = Inr st"
  by (auto simp: step_outcome_def process_reply_def send_email_response_def Let_def
           split: if_splits prod.splits)

lemma process_reply_replies:
  assumes "r \<in> set (replies st)"
  shows "\<exists>st'. process_reply sp jl hk e r st = Inr st'
           \<and> replies st' = (if terminal (step_outcome sp jl hk e r (files st))
                             then remove1 r (replies st) else replies st)"
  using assms
  by (auto simp: step_outcome_def process_reply_def send_email_response_def Let_def terminal_def
        send_notification_to_user_def list_remove_def
           split: if_splits prod.splits)

lemma process_reply_counters:
  "process_reply sp jl hk e r st = Inr st' \<Longrightarrow>
     counters st' = bump (step_outcome sp jl hk e r (files st)) (counters st)"
  by (auto simp: step_outcome_def process_reply_def send_email_response_def Let_def bump_def
        send_notification_to_user_def list_remove_def
           split: if_splits prod.splits)

lemma process_reply_conversation:
  assumes "process_reply sp jl hk e r st = Inr st'"
  shows "if terminal (step_outcome sp jl hk e r (files st))
         then (\<exists>c. conversation_log (files st')
                      = Some (load_json_file (conversation_log (files st)) @ [c])
                  \<and> customer_email c = reply_email r \<and> customer_message c = reply_body r
                  \<and> needs_human c = (step_outcome sp jl hk e r (files st) = Escalated))
         else conversation_log (files st') = conversation_log (files st)"
  using assms
  by (auto simp: step_outcome_def process_reply_def send_email_response_def Let_def terminal_def
        send_notification_to_user_def list_remove_def log_conversation_def log_reply_status_def
        save_json_file_def
           split: if_splits prod.splits)

lemma process_reply_notification_log:
  assumes "process_reply sp jl hk e r st = Inr st'"
      and "step_outcome sp jl hk e r (files st) \<noteq> Escalated"
  shows "notification_log (files st') = notification_log (files st)"
  using assms
  by (auto simp: step_outcome_def process_reply_def send_email_response_def Let_def
        send_notification_to_user_def list_remove_def log_conversation_def log_reply_status_def
           split: if_splits prod.splits)

lemma process_reply_notification_failed:
  assumes "step_outcome sp jl hk e r (files st) = NotificationFailed"
  shows "process_reply sp jl hk e r st =
           Inr (st\<lparr>counters := (counters st)\<lparr>failed := failed (counters st) + 1\<rparr>,
                   files := log_reply_status (now_status e) (reply_email r) ''NOTIFICATION_FAILED''
                     (fmt_opt (snd (generate_ai_response jl (runner_run e)))) (files st)\<rparr>)"
  using assms
  by (auto simp: step_outcome_def process_reply_def send_email_response_def Let_def
        send_notification_to_user_def
           split: if_splits prod.splits)

lemma subseq_remove1: "subseq (remove1 x xs) xs"
  by (induction xs) auto

lemma fold_remove1_subseq: "subseq (fold remove1 ds xs) xs"
proof (induction ds arbitrary: xs)
  case Nil
  show ?case by simp
next
  case (Cons d ds)
  have "subseq (fold remove1 ds (remove1 d xs)) (remove1 d xs)" by (rule Cons.IH)
  also have "subseq (remove1 d xs) xs" by (rule subseq_remove1)
  finally show ?case by simp
qed

lemma fold_remove1_mset: "mset (fold remove1 ds xs) = mset xs - mset ds"
  by (induction ds arbitrary: xs) auto

lemma fold_remove1_distinct:
  "distinct xs \<Longrightarrow> fold remove1 ds xs = filter (\<lambda>x. x \<notin> set ds) xs"
proof (induction ds arbitrary: xs)
  case Nil
  show ?case by simp
next
  case (Cons d ds)
  have "remove1 d xs = filter (\<lambda>x. x \<noteq> d) xs"
    using Cons.prems by (simp add: distinct_remove1_removeAll removeAll_filter_not_eq) metis
  moreover have "distinct (remove1 d xs)" using Cons.prems by simp
  ultimately show ?case
    using Cons.IH [of "remove1 d xs"] by (auto intro: filter_cong)
qed

lemma terminal_replies_simps:
  "terminal_replies [] outs = []"
  "terminal_replies rs [] = []"
  "terminal_replies (r # rs) (out # outs) =
     (if terminal out then r # terminal_replies rs outs else terminal_replies rs outs)"
  by (simp_all add: terminal_replies_def)

lemma terminal_replies_length:
  "length outs = length rs \<Longrightarrow>
     length (terminal_replies rs outs) = length (filter terminal outs)"
  by (induction rs outs rule: list_induct2') (auto simp: terminal_replies_simps)

lemma terminal_replies_subset: "mset (terminal_replies rs outs) \<subseteq># mset rs"
proof (induction rs arbitrary: outs)
  case Nil
  show ?case by (simp add: terminal_replies_simps)
next
  case (Cons r rs)
  show ?case
  proof (cases outs)
    case Nil
    then show ?thesis by (simp add: terminal_replies_simps)
  next
    case (Cons out outs')
    with Cons.IH [of outs'] show ?thesis
      by (auto simp: terminal_replies_simps intro: subset_mset.order_trans)
  qed
qed

lemma terminal_replies_all:
  "length outs = length rs \<Longrightarrow> \<forall>out\<in>set outs. terminal out \<Longrightarrow> terminal_replies rs outs = rs"
  by (induction rs outs rule: list_induct2') (auto simp: terminal_replies_simps)

lemma terminal_replies_spare:
  "i < length rs \<Longrightarrow> length outs = length rs \<Longrightarrow> \<not> terminal (outs ! i) \<Longrightarrow>
     add_mset (rs ! i) (mset (terminal_replies rs outs)) \<subseteq># mset rs"
proof (induction rs outs arbitrary: i rule: list_induct2')
  case (4 r rs out outs)
  show ?case
  proof (cases i)
    case 0
    with 4 have "\<not> terminal out" by simp
    then show ?thesis using 0 terminal_replies_subset [of rs outs]
      by (simp add: terminal_replies_simps)
  next
    case (Suc j)
    with 4 have "add_mset (rs ! j) (mset (terminal_replies rs outs)) \<subseteq># mset rs" by simp
    then show ?thesis using Suc
      by (auto simp: terminal_replies_simps intro: subset_mset.order_trans)
  qed
qed simp_all

lemma loop_total:
  assumes "mset rs \<subseteq># mset (replies st)"
  shows "\<exists>st'. process_loop sp jl hk envs i rs st = Inr st'
           \<and> length (loop_outcomes sp jl hk envs i rs st) = length rs
           \<and> replies st' = fold remove1
                 (terminal_replies rs (loop_outcomes sp jl hk envs i rs st)) (replies st)"
  using assms
proof (induction rs arbitrary: i st)
  case Nil
  show ?case by (simp add: terminal_replies_simps)
next
  case (Cons r rs)
  from Cons.prems have r: "r \<in> set (replies st)"
    by (metis list.set_intros(1) mset_subset_eqD set_mset_mset)
  let ?out = "step_outcome sp jl hk (envs i) r (files st)"
  from process_reply_replies [OF r, of sp jl hk "envs i"] obtain st1 where
    st1: "process_reply sp jl hk (envs i) r st = Inr st1"
      "replies st1 = (if terminal ?out then remove1 r (replies st) else replies st)"
    by blast
  from Cons.prems have rest: "mset rs \<subseteq># mset (replies st) - {#r#}"
    by (simp add: insert_subset_eq_iff)
  have "mset rs \<subseteq># mset (replies st1)"
  proof (cases "terminal ?out")
    case True
    with st1 rest show ?thesis by simp
  next
    case False
    with st1 rest show ?thesis
      by (auto intro: subset_mset.order_trans [OF _ diff_subset_eq_self])
  qed
  from Cons.IH [OF this, of "Suc i"] obtain st' where
    st': "process_loop sp jl hk envs (Suc i) rs st1 = Inr st'"
      "length (loop_outcomes sp jl hk envs (Suc i) rs st1) = length rs"
      "replies st' = fold remove1
          (terminal_replies rs (loop_outcomes sp jl hk envs (Suc i) rs st1)) (replies st1)"
    by blast
  show ?case
    using st1 st' by (simp add: terminal_replies_simps)
qed

lemma loop_conversation:
  assumes "process_loop sp jl hk envs i rs st = Inr st'"
  shows "\<exists>entries. load_json_file (conversation_log (files st'))
                      = load_json_file (conversation_log (files st)) @ entries
           \<and> map entry_key entries
               = map reply_key (terminal_replies rs (loop_outcomes sp jl hk envs i rs st))
           \<and> (entries = [] \<longrightarrow> conversation_log (files st') = conversation_log (files st))"
  using assms
proof (induction rs arbitrary: i st)
  case Nil
  then show ?case by (simp add: terminal_replies_simps)
next
  case (Cons r rs)
  let ?out = "step_outcome sp jl hk (envs i) r (files st)"
  from Cons.prems obtain st1 where
    st1: "process_reply sp jl hk (envs i) r st = Inr st1"
      and rest: "process_loop sp jl hk envs (Suc i) rs st1 = Inr st'"
    by (auto split: sum.splits)
  from Cons.IH [OF rest] obtain entries where
    e: "load_json_file (conversation_log (files st'))
          = load_json_file (conversation_log (files st1)) @ entries"
       "map entry_key entries
          = map reply_key (terminal_replies rs (loop_outcomes sp jl hk envs (Suc i) rs st1))"
       "entries = [] \<longrightarrow> conversation_log (files st') = conversation_log (files st1)"
    by blast
  show ?case
  proof (cases "terminal ?out")
    case True
    with process_reply_conversation [OF st1] obtain c where
      c: "conversation_log (files st1) = Some (load_json_file (conversation_log (files st)) @ [c])"
         "customer_email c = reply_email r" "customer_message c = reply_body r"
      by auto
    have "load_json_file (conversation_log (files st'))
            = load_json_file (conversation_log (files st)) @ (c # entries)"
      using e(1) c(1) by (simp add: load_json_file_def)
    moreover have "map entry_key (c # entries)
            = map reply_key (terminal_replies (r # rs) (loop_outcomes sp jl hk envs i (r # rs) st))"
      using True e(2) c(2,3) st1
      by (simp add: terminal_replies_simps entry_key_def reply_key_def)
    ultimately show ?thesis by blast
  next
    case False
    with process_reply_conversation [OF st1]
    have "conversation_log (files st1) = conversation_log (files st)" by simp
    with e False st1 show ?thesis
      by (auto simp: terminal_replies_simps)
  qed
qed

lemma loop_counters:
  assumes "process_loop sp jl hk envs i rs st = Inr st'"
  shows "counters st' = fold bump (loop_outcomes sp jl hk envs i rs st) (counters st)"
  using assms
proof (induction rs arbitrary: i st)
  case Nil
  then show ?case by simp
next
  case (Cons r rs)
  from Cons.prems obtain st1 where
    st1: "process_reply sp jl hk (envs i) r st = Inr st1"
      and rest: "process_loop sp jl hk envs (Suc i) rs st1 = Inr st'"
    by (auto split: sum.splits)
  show ?case
    using Cons.IH [OF rest] process_reply_counters [OF st1] st1 by simp
qed

lemma fold_bump_skipped:
  "skipped_manual (fold bump outs c) = skipped_manual c + length (filter (\<lambda>out. out = SkippedManual) outs)"
  by (induction outs arbitrary: c) (auto simp: bump_def split: outcome.splits)

lemma process_loop_append:
  "process_loop sp jl hk envs i (xs @ ys) st =
     (case process_loop sp jl hk envs i xs st of
        Inl err \<Rightarrow> Inl err
      | Inr st1 \<Rightarrow> process_loop sp jl hk envs (i + length xs) ys st1)"
  by (induction xs arbitrary: i st) (auto split: sum.splits)

lemma loop_outcomes_nth:
  assumes "process_loop sp jl hk envs i (take k rs) st = Inr stk" "k < length rs"
  shows "loop_outcomes sp jl hk envs i rs st ! k = step_outcome sp jl hk (envs (i + k)) (rs ! k) (files stk)"
  using assms
proof (induction rs arbitrary: i k st)
  case Nil
  then show ?case by simp
next
  case (Cons r rs)
  show ?case
  proof (cases k)
    case 0
    with Cons.prems show ?thesis by simp
  next
    case (Suc j)
    with Cons.prems obtain st1 where
      st1: "process_reply sp jl hk (envs i) r st = Inr st1"
        and rest: "process_loop sp jl hk envs (Suc i) (take j rs) st1 = Inr stk"
      by (auto split: sum.splits)
    from Cons.prems Suc have "j < length rs" by simp
    from Cons.IH [OF rest this] show ?thesis using Suc st1 by simp
  qed
qed

lemma step_outcome_delivered:
  assumes "smtp_ok e" "hk ''Subject'' (response_subject (reply_subject r))"
      and "hk ''To'' (reply_email r)" "hk ''Subject'' (notification_subject (reply_name r))"
  shows "step_outcome sp jl hk e r fs \<noteq> SendFailed
       \<and> step_outcome sp jl hk e r fs \<noteq> NotificationFailed"
  using assms
  by (simp add: step_outcome_def send_email_response_def send_notification_to_user_def)

lemma state_at_Suc:
  assumes "i < length (load_json_file (replies_json fs))" "state_at sp jl hk envs fs i = Inr st"
  shows "state_at sp jl hk envs fs (Suc i)
           = process_reply sp jl hk (envs i) (load_json_file (replies_json fs) ! i) st"
  using assms
  by (simp add: state_at_def take_Suc_conv_app_nth process_loop_append split: sum.splits)

lemma state_at_outcome:
  assumes "i < length (load_json_file (replies_json fs))" "state_at sp jl hk envs fs i = Inr st"
  shows "pass_outcomes sp jl hk envs fs ! i
           = step_outcome sp jl hk (envs i) (load_json_file (replies_json fs) ! i) (files st)"
  using loop_outcomes_nth [of sp jl hk envs 0 i "load_json_file (replies_json fs)" "initial_state fs" st]
    assms by (simp add: state_at_def pass_outcomes_def)

lemma state_at_total:
  assumes "i \<le> length (load_json_file (replies_json fs))"
  shows "\<exists>st. state_at sp jl hk envs fs i = Inr st"
proof -
  have "mset (take i (load_json_file (replies_json fs))) \<subseteq># mset (replies (initial_state fs))"
    by (metis append_take_drop_id initial_state_def mset_append mset_subset_eq_add_left
        pass_state.select_convs(2))
  from loop_total [OF this, of sp jl hk envs 0] show ?thesis
    unfolding state_at_def by blast
qed

lemma pass_total:
  "\<exists>st'. process_loop sp jl hk envs 0 (load_json_file (replies_json fs)) (initial_state fs) = Inr st'
      \<and> process_customer_replies sp jl hk envs fs
            = Inr ((files st')\<lparr>replies_json := Some (replies st')\<rparr>, counters st')
      \<and> length (pass_outcomes sp jl hk envs fs) = length (load_json_file (replies_json fs))
      \<and> replies st' = fold remove1
            (terminal_replies (load_json_file (replies_json fs)) (pass_outcomes sp jl hk envs fs))
            (load_json_file (replies_json fs))"
proof -
  have "mset (load_json_file (replies_json fs)) \<subseteq># mset (replies (initial_state fs))"
    by (simp add: initial_state_def)
  from loop_total [OF this, of sp jl hk envs 0] show ?thesis
    by (auto simp: process_customer_replies_def pass_outcomes_def save_json_file_def
        initial_state_def)
qed

text \<open>
  C2. A pass returns, and the replies it removes from the queue are, as a multiset, the
  replies of its terminal iterations (AI-responded or escalated), one for each such
  iteration; the entries it appends to the conversation log are, in order, one for each of
  them, with the reply's email (its \<^verbatim>\<open>from_email\<close> in lower case, as the pass reads it) and
  message body.
\<close>

theorem removal_matches_conversation:
  "\<exists>fs' st'. process_customer_replies sp jl hk envs fs = Inr (fs', st')
     \<and> length (pass_outcomes sp jl hk envs fs) = length (load_json_file (replies_json fs))
     \<and> length (terminal_replies (load_json_file (replies_json fs)) (pass_outcomes sp jl hk envs fs))
          = length (filter terminal (pass_outcomes sp jl hk envs fs))
     \<and> mset (terminal_replies (load_json_file (replies_json fs)) (pass_outcomes sp jl hk envs fs))
          \<subseteq># mset (load_json_file (replies_json fs))
     \<and> mset (load_json_file (replies_json fs'))
          = mset (load_json_file (replies_json fs))
            - mset (terminal_replies (load_json_file (replies_json fs))
                      (pass_outcomes sp jl hk envs fs))
     \<and> (\<exists>entries. load_json_file (conversation_log fs')
                      = load_json_file (conversation_log fs) @ entries
            \<and> map entry_key entries
                = map reply_key (terminal_replies (load_json_file (replies_json fs))
                                   (pass_outcomes sp jl hk envs fs)))"
proof -
  let ?q = "load_json_file (replies_json fs)"
  let ?outs = "pass_outcomes sp jl hk envs fs"
  from pass_total [of sp jl hk envs fs] obtain st' where
    st': "process_loop sp jl hk envs 0 ?q (initial_state fs) = Inr st'"
      "process_customer_replies sp jl hk envs fs
            = Inr ((files st')\<lparr>replies_json := Some (replies st')\<rparr>, counters st')"
      "length ?outs = length ?q"
      "replies st' = fold remove1 (terminal_replies ?q ?outs) ?q"
    by blast
  from loop_conversation [OF st'(1)] obtain entries where
    e: "load_json_file (conversation_log (files st'))
          = load_json_file (conversation_log (files (initial_state fs))) @ entries"
       "map entry_key entries = map reply_key (terminal_replies ?q ?outs)"
    by (auto simp: pass_outcomes_def)
  have len: "length (terminal_replies ?q ?outs) = length (filter terminal ?outs)"
    using st'(3) by (rule terminal_replies_length)
  have "mset (load_json_file (replies_json ((files st')\<lparr>replies_json := Some (replies st')\<rparr>)))
          = mset ?q - mset (terminal_replies ?q ?outs)"
    by (simp add: load_json_file_def st'(4) fold_remove1_mset)
  moreover have "load_json_file (conversation_log ((files st')\<lparr>replies_json := Some (replies st')\<rparr>))
          = load_json_file (conversation_log fs) @ entries"
    using e(1) by (simp add: initial_state_def)
  ultimately show ?thesis
    using st'(2,3) e(2) len terminal_replies_subset [of ?q ?outs] by blast
qed

text \<open>
  C10. A pass always writes the queue file: the queue it loaded with the first occurrence
  of every terminal reply removed. What it writes is a subsequence of the loaded queue
  (nothing added, duplicated or reordered) and, for a queue without duplicates, the loaded
  queue without the terminal replies.
\<close>

theorem queue_persisted:
  "\<exists>fs' st'. process_customer_replies sp jl hk envs fs = Inr (fs', st')
     \<and> replies_json fs' = Some (fold remove1
           (terminal_replies (load_json_file (replies_json fs)) (pass_outcomes sp jl hk envs fs))
           (load_json_file (replies_json fs)))
     \<and> mset (load_json_file (replies_json fs'))
          = mset (load_json_file (replies_json fs))
            - mset (terminal_replies (load_json_file (replies_json fs))
                      (pass_outcomes sp jl hk envs fs))
     \<and> subseq (load_json_file (replies_json fs')) (load_json_file (replies_json fs))
     \<and> (distinct (load_json_file (replies_json fs)) \<longrightarrow>
          load_json_file (replies_json fs')
            = filter (\<lambda>r. r \<notin> set (terminal_replies (load_json_file (replies_json fs))
                                       (pass_outcomes sp jl hk envs fs)))
                (load_json_file (replies_json fs)))"
proof -
  let ?q = "load_json_file (replies_json fs)"
  let ?outs = "pass_outcomes sp jl hk envs fs"
  from pass_total [of sp jl hk envs fs] obtain st' where
    st': "process_loop sp jl hk envs 0 ?q (initial_state fs) = Inr st'"
      "process_customer_replies sp jl hk envs fs
            = Inr ((files st')\<lparr>replies_json := Some (replies st')\<rparr>, counters st')"
      "length ?outs = length ?q"
      "replies st' = fold remove1 (terminal_replies ?q ?outs) ?q"
    by blast
  let ?fs' = "(files st')\<lparr>replies_json := Some (replies st')\<rparr>"
  have a: "replies_json ?fs' = Some (fold remove1 (terminal_replies ?q ?outs) ?q)"
    by (simp add: st'(4))
  have b: "load_json_file (replies_json ?fs') = fold remove1 (terminal_replies ?q ?outs) ?q"
    by (simp add: st'(4) load_json_file_def)
  have c: "mset (load_json_file (replies_json ?fs')) = mset ?q - mset (terminal_replies ?q ?outs)"
    unfolding b by (rule fold_remove1_mset)
  have d: "subseq (load_json_file (replies_json ?fs')) ?q"
    unfolding b by (rule fold_remove1_subseq)
  have e: "distinct ?q \<longrightarrow> load_json_file (replies_json ?fs')
             = filter (\<lambda>r. r \<notin> set (terminal_replies ?q ?outs)) ?q"
    unfolding b by (simp add: fold_remove1_distinct)
  show ?thesis
    using st'(2) a c d e by blast
qed

lemma spare_member:
  assumes "add_mset x D \<subseteq># Q" "mset ys = Q - D"
  shows "x \<in> set ys"
proof -
  from assms(1) have "count D x < count Q x"
    by (metis count_add_mset less_eq_Suc_le mset_subset_eq_count)
  then have "x \<in># Q - D" by (simp add: in_diff_count)
  with assms(2) show ?thesis by (metis set_mset_mset)
qed

lemma retained_when_not_terminal:
  assumes "process_customer_replies sp jl hk envs fs = Inr (fs', st')"
      and "i < length (load_json_file (replies_json fs))"
      and "\<not> terminal (pass_outcomes sp jl hk envs fs ! i)"
  shows "load_json_file (replies_json fs) ! i \<in> set (load_json_file (replies_json fs'))"
proof -
  let ?q = "load_json_file (replies_json fs)"
  let ?outs = "pass_outcomes sp jl hk envs fs"
  from pass_total [of sp jl hk envs fs] assms(1) have
    len: "length ?outs = length ?q" and
    q': "load_json_file (replies_json fs') = fold remove1 (terminal_replies ?q ?outs) ?q"
    by (auto simp: load_json_file_def)
  have "add_mset (?q ! i) (mset (terminal_replies ?q ?outs)) \<subseteq># mset ?q"
    using assms(2) len assms(3) by (rule terminal_replies_spare)
  moreover have "mset (load_json_file (replies_json fs')) = mset ?q - mset (terminal_replies ?q ?outs)"
    unfolding q' by (rule fold_remove1_mset)
  ultimately show ?thesis by (rule spare_member)
qed

text \<open>
  C3. An iteration whose draft is usable and whose mail is not delivered leaves the state
  of the pass as it was (no conversation entry, no counter changed), and its reply is in
  the queue the pass writes.
\<close>

theorem send_failure_keeps_reply:
  "\<exists>fs' st'. process_customer_replies sp jl hk envs fs = Inr (fs', st')
     \<and> (\<forall>i<length (load_json_file (replies_json fs)).
           pass_outcomes sp jl hk envs fs ! i = SendFailed \<longrightarrow>
             load_json_file (replies_json fs) ! i \<in> set (load_json_file (replies_json fs'))
           \<and> (\<exists>st. state_at sp jl hk envs fs i = Inr st
                   \<and> state_at sp jl hk envs fs (Suc i) = Inr st))"
proof -
  let ?q = "load_json_file (replies_json fs)"
  from pass_total [of sp jl hk envs fs] obtain fs' st' where
    pass: "process_customer_replies sp jl hk envs fs = Inr (fs', st')" by blast
  have "load_json_file (replies_json fs) ! i \<in> set (load_json_file (replies_json fs'))
           \<and> (\<exists>st. state_at sp jl hk envs fs i = Inr st \<and> state_at sp jl hk envs fs (Suc i) = Inr st)"
    if i: "i < length ?q" and out: "pass_outcomes sp jl hk envs fs ! i = SendFailed" for i
  proof
    have "\<not> terminal (pass_outcomes sp jl hk envs fs ! i)"
      unfolding out by (simp add: terminal_def)
    with pass i show "?q ! i \<in> set (load_json_file (replies_json fs'))"
      by (rule retained_when_not_terminal)
    from state_at_total [of i fs sp jl hk envs] i obtain st where
      st: "state_at sp jl hk envs fs i = Inr st" by auto
    from state_at_outcome [OF i st] out
    have "step_outcome sp jl hk (envs i) (?q ! i) (files st) = SendFailed" by simp
    then have "process_reply sp jl hk (envs i) (?q ! i) st = Inr st"
      by (rule process_reply_send_failed)
    with state_at_Suc [OF i st] st
    show "\<exists>st. state_at sp jl hk envs fs i = Inr st \<and> state_at sp jl hk envs fs (Suc i) = Inr st"
      by simp
  qed
  with pass show ?thesis by blast
qed

text \<open>
  C4. An iteration on the escalation path whose notification fails increments
  \<open>failed\<close> and nothing else of the counters, leaves the queue, the conversation log and the
  notification log (so no MANUAL\_HANDLED entry) as they were, and its reply is in the
  queue the pass writes.
\<close>

theorem notification_failure_keeps_reply:
  "\<exists>fs' st'. process_customer_replies sp jl hk envs fs = Inr (fs', st')
     \<and> (\<forall>i<length (load_json_file (replies_json fs)).
           pass_outcomes sp jl hk envs fs ! i = NotificationFailed \<longrightarrow>
             load_json_file (replies_json fs) ! i \<in> set (load_json_file (replies_json fs'))
           \<and> (\<exists>st stn. state_at sp jl hk envs fs i = Inr st
                   \<and> state_at sp jl hk envs fs (Suc i) = Inr stn
                   \<and> replies stn = replies st
                   \<and> counters stn = (counters st)\<lparr>failed := failed (counters st) + 1\<rparr>
                   \<and> conversation_log (files stn) = conversation_log (files st)
                   \<and> notification_log (files stn) = notification_log (files st)))"
proof -
  let ?q = "load_json_file (replies_json fs)"
  from pass_total [of sp jl hk envs fs] obtain fs' st' where
    pass: "process_customer_replies sp jl hk envs fs = Inr (fs', st')" by blast
  have "load_json_file (replies_json fs) ! i \<in> set (load_json_file (replies_json fs'))
           \<and> (\<exists>st stn. state_at sp jl hk envs fs i = Inr st
                   \<and> state_at sp jl hk envs fs (Suc i) = Inr stn
                   \<and> replies stn = replies st
                   \<and> counters stn = (counters st)\<lparr>failed := failed (counters st) + 1\<rparr>
                   \<and> conversation_log (files stn) = conversation_log (files st)
                   \<and> notification_log (files stn) = notification_log (files st))"
    if i: "i < length ?q" and out: "pass_outcomes sp jl hk envs fs ! i = NotificationFailed" for i
  proof
    have "\<not> terminal (pass_outcomes sp jl hk envs fs ! i)"
      unfolding out by (simp add: terminal_def)
    with pass i show "?q ! i \<in> set (load_json_file (replies_json fs'))"
      by (rule retained_when_not_terminal)
    from state_at_total [of i fs sp jl hk envs] i obtain st where
      st: "state_at sp jl hk envs fs i = Inr st" by auto
    from state_at_outcome [OF i st] out
    have "step_outcome sp jl hk (envs i) (?q ! i) (files st) = NotificationFailed" by simp
    from process_reply_notification_failed [OF this] state_at_Suc [OF i st] st
    show "\<exists>st stn. state_at sp jl hk envs fs i = Inr st
                   \<and> state_at sp jl hk envs fs (Suc i) = Inr stn
                   \<and> replies stn = replies st
                   \<and> counters stn = (counters st)\<lparr>failed := failed (counters st) + 1\<rparr>
                   \<and> conversation_log (files stn) = conversation_log (files st)
                   \<and> notification_log (files stn) = notification_log (files st)"
      by (simp add: log_reply_status_def)
  qed
  with pass show ?thesis by blast
qed

text \<open>
  C6, as amended. When no send of a response and no notification of a pass fails (both
  functions return \<^verbatim>\<open>True\<close> whenever the pass calls them: the message is built and the
  transport sends it) and the pass skips no reply as manually handled, it leaves the
  queue empty, and a second pass on the stores it left changes nothing, whatever the
  outside world answers.
\<close>

theorem drain_idempotent:
  assumes "process_customer_replies sp jl hk envs fs = Inr (fs1, st1)"
      and "\<forall>out\<in>set (pass_outcomes sp jl hk envs fs).
             out \<noteq> SendFailed \<and> out \<noteq> NotificationFailed"
      and "skipped_manual st1 = 0"
    shows "replies_json fs1 = Some []
         \<and> (\<forall>envs2. process_customer_replies sp jl hk envs2 fs1 = Inr (fs1, zero_stats))"
proof -
  let ?q = "load_json_file (replies_json fs)"
  let ?outs = "pass_outcomes sp jl hk envs fs"
  from pass_total [of sp jl hk envs fs] assms(1) obtain st' where
    st': "process_loop sp jl hk envs 0 ?q (initial_state fs) = Inr st'"
      "fs1 = (files st')\<lparr>replies_json := Some (replies st')\<rparr>" "st1 = counters st'"
      "length ?outs = length ?q"
      "replies st' = fold remove1 (terminal_replies ?q ?outs) ?q"
    by auto
  from loop_counters [OF st'(1)] st'(3) assms(3)
  have "length (filter (\<lambda>out. out = SkippedManual) ?outs) = 0"
    by (simp add: pass_outcomes_def fold_bump_skipped)
  then have no_skip: "\<forall>out\<in>set ?outs. out \<noteq> SkippedManual"
    by (simp add: filter_empty_conv)
  with assms(2) have "\<forall>out\<in>set ?outs. terminal out"
    by (metis outcome.exhaust terminal_def)
  with st'(4) have "terminal_replies ?q ?outs = ?q" by (rule terminal_replies_all)
  with st'(5) have "mset (replies st') = {#}" by (simp add: fold_remove1_mset)
  then have empty: "replies st' = []" by simp
  with st'(2) have one: "replies_json fs1 = Some []" by simp
  have "process_customer_replies sp jl hk envs2 fs1 = Inr (fs1, zero_stats)" for envs2
    using one
    by (simp add: process_customer_replies_def load_json_file_def initial_state_def
        save_json_file_def zero_stats_def)
  with one show ?thesis by blast
qed

text \<open>
  C7. When the generator call raises, or its output does not parse, with error text \<open>err\<close>,
  \<^verbatim>\<open>generate_ai_response\<close> returns \<open>(None, err)\<close> and the iteration takes the escalation
  path with that reason: notified, marked, logged and removed when the notification is
  built and sent, counted as failed and kept when it is not.
\<close>

theorem generator_error_escalates:
  assumes "runner_run e = Inl err \<or> (\<exists>out. runner_run e = Inr out \<and> jl (clean_output out) = Inl err)"
      and "\<not> was_manually_handled sp (reply_email r) 24 (now_check e) (notification_log (files st))"
      and "r \<in> set (replies st)"
    shows "generate_ai_response jl (runner_run e) = (None, Some err)
         \<and> step_outcome sp jl hk e r (files st)
             = (if hk ''Subject'' (notification_subject (reply_name r)) \<and> smtp_ok e
                then Escalated else NotificationFailed)
         \<and> (\<exists>st'. process_reply sp jl hk e r st = Inr st'
              \<and> (if hk ''Subject'' (notification_subject (reply_name r)) \<and> smtp_ok e then
                    replies st' = remove1 r (replies st)
                    \<and> counters st' = (counters st)\<lparr>escalated_to_human :=
                                         escalated_to_human (counters st) + 1\<rparr>
                    \<and> conversation_log (files st') =
                        Some (load_json_file (conversation_log (files st)) @
                          [\<lparr>conv_timestamp = isoformat (now_conv e),
                            customer_email = reply_email r, customer_name = reply_name r,
                            customer_message = reply_body r, ai_response = None,
                            needs_human = True, escalation_reason = Some err\<rparr>])
                    \<and> notification_log (files st') =
                        mark_as_manually_handled (now_mark e) (reply_email r)
                          (file_append (notification_log (files st))
                             (''['' @ strftime (now_notify e) @ ''] NOTIFICATION_SENT | Customer: ''
                                @ reply_email r @ '' | Reason: '' @ err @ [LF]))
                  else
                    replies st' = replies st
                    \<and> counters st' = (counters st)\<lparr>failed := failed (counters st) + 1\<rparr>
                    \<and> conversation_log (files st') = conversation_log (files st)
                    \<and> notification_log (files st') = notification_log (files st)
                    \<and> reply_log (files st') =
                        file_append (reply_log (files st))
                          (''['' @ strftime (now_status e) @ ''] NOTIFICATION_FAILED | Customer: ''
                             @ reply_email r @ '' | '' @ err @ [LF])))"
proof -
  from assms(1) have gen: "generate_ai_response jl (runner_run e) = (None, Some err)"
    by (auto simp: generate_ai_response_def)
  show ?thesis
    using gen assms(2,3)
    by (simp add: step_outcome_def process_reply_def truthy_def send_notification_to_user_def
        list_remove_def log_conversation_def log_reply_status_def save_json_file_def
        fmt_opt_def Let_def)
qed

section \<open>The sample pass\<close>

lemma was_manually_handled_missing: "\<not> was_manually_handled sp e h now None"
  by (simp add: was_manually_handled_def was_manually_handled_try_def)

lemma generate_ai_response_raised: "generate_ai_response jl (Inl err) = (None, Some err)"
  by (simp add: generate_ai_response_def)

lemma step_outcome_log:
  "notification_log fs = notification_log fs' \<Longrightarrow>
     step_outcome sp jl hk e r fs = step_outcome sp jl hk e r fs'"
  by (simp add: step_outcome_def send_notification_to_user_def)

lemma process_reply_escalated_log:
  assumes "process_reply sp jl hk e r st = Inr st'"
      and "step_outcome sp jl hk e r (files st) = Escalated"
  shows "notification_log (files st') =
           mark_as_manually_handled (now_mark e) (reply_email r)
             (file_append (notification_log (files st))
                (''['' @ strftime (now_notify e) @ ''] NOTIFICATION_SENT | Customer: ''
                   @ reply_email r @ '' | Reason: ''
                   @ fmt_opt (snd (generate_ai_response jl (runner_run e))) @ [LF]))"
  using assms
  by (auto simp: step_outcome_def process_reply_def send_email_response_def Let_def
        send_notification_to_user_def list_remove_def log_conversation_def log_reply_status_def
           split: if_splits prod.splits)

lemma process_reply_skipped:
  assumes "step_outcome sp jl hk e r (files st) = SkippedManual"
  shows "process_reply sp jl hk e r st =
           Inr (st\<lparr>counters := (counters st)\<lparr>skipped_manual := skipped_manual (counters st) + 1\<rparr>,
                   files := log_reply_status (now_status e) (reply_email r) ''SKIPPED_MANUAL''
                              ''Handled within last 24 hours'' (files st)\<rparr>)"
  using assms
  by (auto simp: step_outcome_def process_reply_def Let_def split: if_splits prod.splits)

lemma sample_clean: "clean_output sample_output
    = ''{\"response\": \"It costs 10 USD.\", \"needs_human\": false}''"
  by (simp add: clean_output_def sample_output_def str_strip_def str_replace_def is_space_def
      str_split.simps LF_def)

lemma sample_generate:
  "generate_ai_response sample_loads (Inr sample_output) = (Some ''It costs 10 USD.'', None)"
  by (simp add: generate_ai_response_def sample_clean sample_loads_def dict_get_def str_in_def
      sublist_Cons_right)

lemma sample_reply_emails:
  "reply_email sample_reply_a = ''a@x.com''" "reply_email sample_reply_b = ''a@x.com''"
  by (simp_all add: reply_email_def sample_reply_a_def sample_reply_b_def dict_get_def
      str_lower_def char_lower_def is_upper_def)

lemma sample_replies_differ: "sample_reply_a \<noteq> sample_reply_b"
  by (simp add: sample_reply_a_def sample_reply_b_def)

lemma sample_notification_line_eq:
  "''['' @ strftime sample_mark_time @ ''] NOTIFICATION_SENT | Customer: '' @ ''a@x.com''
     @ '' | Reason: '' @ fmt_opt (Some ''model unavailable'') @ [LF] = sample_notification_line"
  by (simp add: sample_mark_strftime sample_notification_line_def fmt_opt_def)

lemma sample_notification_line_facts:
  "complete_lines (Some sample_notification_line)"
  "log_lines (Some sample_notification_line) = [sample_notification_line]"
  "\<not> mentions ''a@x.com'' sample_notification_line"
  by (simp_all add: complete_lines_def log_lines_def readlines_def sample_notification_line_def
      mentions_def str_in_def sublist_Cons_right LF_def CR_def)

lemma sample_log_suppresses:
  "was_manually_handled strptime_strict ''a@x.com'' 24 sample_early_query
     (mark_as_manually_handled sample_mark_time ''a@x.com'' (Some sample_notification_line))"
proof -
  have "was_manually_handled strptime_strict ''a@x.com'' 24 sample_early_query
     (mark_as_manually_handled sample_mark_time ''a@x.com'' (Some sample_notification_line))
      = (63844891200000000 < to_micro (sample_mark_time\<lparr>microsecond := 0\<rparr>))"
    by (rule was_manually_handled_after_mark)
       (simp_all add: LF_def CR_def sample_notification_line_facts sample_mark_strptime
          sample_early_cutoff)
  then show ?thesis
    by (simp add: to_micro_truncate sample_mark_micro sample_mark_microsecond)
qed

lemma char_of_upper_a: "char_of (65::nat) = CHR ''A''"
  by code_simp

lemma sample_reply_names:
  "reply_name sample_reply_a = ''A''" "reply_name sample_reply_b = ''A''"
  unfolding reply_name_def sample_reply_emails
  by (simp_all add: str_split_char str_title_def char_upper_def is_lower_def is_upper_def
      char_of_upper_a)

lemma sample_headers:
  "unfolded_header n (response_subject (reply_subject sample_reply_a))"
  "unfolded_header n (reply_email sample_reply_a)"
  "unfolded_header n (notification_subject (reply_name sample_reply_a))"
  unfolding sample_reply_names sample_reply_emails
  by (simp_all add: unfolded_header_def response_subject_def reply_subject_def dict_get_def
      notification_subject_def sample_reply_a_def is_line_boundary_def CR_def LF_def)

lemma sample_sends:
  "send_email_response unfolded_header smtp (reply_email sample_reply_a)
     (reply_subject sample_reply_a) = smtp"
  "fst (send_notification_to_user unfolded_header smtp now (reply_email sample_reply_a)
     (reply_name sample_reply_a) reason fs) = smtp"
  by (simp_all add: send_email_response_def send_notification_to_user_def sample_headers)

lemma sample_first_outcome:
  "step_outcome strptime_strict sample_loads unfolded_header (sample_envs_error 0) sample_reply_a
     (files (initial_state (sample_stores q))) = Escalated"
  by (simp add: step_outcome_def sample_envs_error_def sample_env_def initial_state_def
      sample_stores_def was_manually_handled_missing generate_ai_response_raised truthy_def
      sample_sends)

lemma sample_pass_ab_outcomes:
  "pass_outcomes strptime_strict sample_loads unfolded_header sample_envs_error
     (sample_stores [sample_reply_a, sample_reply_b]) = [Escalated, SkippedManual]"
proof -
  let ?fs = "sample_stores [sample_reply_a, sample_reply_b]"
  let ?st0 = "initial_state ?fs"
  have q: "load_json_file (replies_json ?fs) = [sample_reply_a, sample_reply_b]"
    by (simp add: sample_stores_def load_json_file_def)
  have "sample_reply_a \<in> set (replies ?st0)"
    by (simp add: initial_state_def q)
  from process_reply_replies [OF this, of strptime_strict sample_loads unfolded_header "sample_envs_error 0"]
  obtain st1 where
    st1: "process_reply strptime_strict sample_loads unfolded_header (sample_envs_error 0) sample_reply_a ?st0
            = Inr st1"
    by blast
  have "notification_log (files st1) =
          mark_as_manually_handled sample_mark_time ''a@x.com'' (Some sample_notification_line)"
    using process_reply_escalated_log [OF st1 sample_first_outcome]
    by (simp add: sample_envs_error_def sample_env_def sample_reply_emails
        generate_ai_response_raised initial_state_def sample_stores_def file_append_def
        sample_notification_line_eq [simplified])
  then have "step_outcome strptime_strict sample_loads unfolded_header (sample_envs_error 1) sample_reply_b
               (files st1) = SkippedManual"
    by (simp add: step_outcome_def sample_envs_error_def sample_env_def sample_reply_emails
        sample_log_suppresses)
  then show ?thesis
    unfolding pass_outcomes_def q
    by (simp add: st1 sample_first_outcome split: sum.splits)
qed

lemma sample_pass_a_outcomes:
  "pass_outcomes strptime_strict sample_loads unfolded_header sample_envs_error (sample_stores [sample_reply_a])
     = [Escalated]"
proof -
  have q: "load_json_file (replies_json (sample_stores [sample_reply_a])) = [sample_reply_a]"
    by (simp add: sample_stores_def load_json_file_def)
  show ?thesis
    unfolding pass_outcomes_def q by (simp add: sample_first_outcome split: sum.splits)
qed

lemma sample_send_fails_outcomes:
  "pass_outcomes strptime_strict sample_loads unfolded_header sample_envs_send_fails
     (sample_stores [sample_reply_a]) = [SendFailed]"
proof -
  have q: "load_json_file (replies_json (sample_stores [sample_reply_a])) = [sample_reply_a]"
    by (simp add: sample_stores_def load_json_file_def)
  show ?thesis
    unfolding pass_outcomes_def q
    by (simp add: step_outcome_def sample_envs_send_fails_def sample_env_def initial_state_def
      sample_stores_def was_manually_handled_missing sample_generate truthy_def sample_sends
      split: sum.splits)
qed

lemma sample_notify_fails_outcomes:
  "pass_outcomes strptime_strict sample_loads unfolded_header sample_envs_notify_fails
     (sample_stores [sample_reply_a]) = [NotificationFailed]"
proof -
  have q: "load_json_file (replies_json (sample_stores [sample_reply_a])) = [sample_reply_a]"
    by (simp add: sample_stores_def load_json_file_def)
  show ?thesis
    unfolding pass_outcomes_def q
    by (simp add: step_outcome_def sample_envs_notify_fails_def sample_env_def initial_state_def
      sample_stores_def was_manually_handled_missing generate_ai_response_raised truthy_def
      sample_sends split: sum.splits)
qed

text \<open>
  A stored Subject of two lines is refused when the response is built: the response is
  not sent though the transport works, nothing is logged or counted, and the reply stays
  in the queue.
\<close>

lemma folded_subject_refused:
  "\<not> unfolded_header n (response_subject (''Re: annual plan'' @ [CR, LF] @ '' until Friday''))"
  by (simp add: unfolded_header_def response_subject_def is_line_boundary_def CR_def LF_def)

lemma refused_subject_send_failed:
  assumes "\<not> was_manually_handled sp (reply_email r) 24 (now_check e) (notification_log fs)"
      and "truthy (fst (generate_ai_response jl (runner_run e)))"
      and "\<not> hk ''Subject'' (response_subject (reply_subject r))"
    shows "step_outcome sp jl hk e r fs = SendFailed"
  using assms by (simp add: step_outcome_def send_email_response_def)

lemma folded_subject_kept:
  "\<exists>fs' st'. process_customer_replies strptime_strict sample_loads unfolded_header
                (\<lambda>i. sample_env sample_mark_time (Inr sample_output) True)
                (sample_stores [sample_reply_a\<lparr>subject :=
                   Some (''Re: annual plan'' @ [CR, LF] @ '' until Friday'')\<rparr>]) = Inr (fs', st')
     \<and> replies_json fs' = Some [sample_reply_a\<lparr>subject :=
                   Some (''Re: annual plan'' @ [CR, LF] @ '' until Friday'')\<rparr>]
     \<and> st' = zero_stats"
proof -
  let ?r = "sample_reply_a\<lparr>subject := Some (''Re: annual plan'' @ [CR, LF] @ '' until Friday'')\<rparr>"
  let ?e = "sample_env sample_mark_time (Inr sample_output) True"
  have "step_outcome strptime_strict sample_loads unfolded_header ?e ?r
          (files (initial_state (sample_stores [?r]))) = SendFailed"
    by (rule refused_subject_send_failed)
       (simp_all add: sample_env_def initial_state_def sample_stores_def
          was_manually_handled_missing sample_generate truthy_def reply_subject_def dict_get_def
          folded_subject_refused [simplified])
  then have "process_reply strptime_strict sample_loads unfolded_header ?e ?r
          (initial_state (sample_stores [?r])) = Inr (initial_state (sample_stores [?r]))"
    by (rule process_reply_send_failed)
  then show ?thesis
    by (simp add: process_customer_replies_def sample_stores_def load_json_file_def
        initial_state_def save_json_file_def zero_stats_def)
qed

lemma pass_counters:
  assumes "process_customer_replies sp jl hk envs fs = Inr (fs', st')"
  shows "st' = fold bump (pass_outcomes sp jl hk envs fs) zero_stats"
proof -
  from assms obtain st where
    st: "process_loop sp jl hk envs 0 (load_json_file (replies_json fs)) (initial_state fs) = Inr st"
      "st' = counters st"
    by (auto simp: process_customer_replies_def split: sum.splits)
  from loop_counters [OF st(1)] st(2) show ?thesis
    by (simp add: pass_outcomes_def initial_state_def zero_stats_def)
qed

lemma sample_queues:
  "load_json_file (replies_json (sample_stores q)) = q"
  "load_json_file (conversation_log (sample_stores q)) = []"
  by (simp_all add: sample_stores_def load_json_file_def)

lemma sample_terminal_ab:
  "terminal_replies [sample_reply_a, sample_reply_b] [Escalated, SkippedManual] = [sample_reply_a]"
  by (simp add: terminal_replies_simps terminal_def)

lemma sample_reply_key: "reply_key sample_reply_a = (''a@x.com'', ''What does it cost?'')"
  unfolding reply_key_def sample_reply_emails
  by (simp add: reply_body_def dict_get_def sample_reply_a_def)

theorem removal_matches_conversation_witness:
  "\<exists>fs' st'. process_customer_replies strptime_strict sample_loads unfolded_header sample_envs_error
                (sample_stores [sample_reply_a, sample_reply_b]) = Inr (fs', st')
     \<and> load_json_file (replies_json fs') = [sample_reply_b]
     \<and> map entry_key (load_json_file (conversation_log fs'))
          = [(''a@x.com'', ''What does it cost?'')]"
  using removal_matches_conversation [of strptime_strict sample_loads unfolded_header sample_envs_error
          "sample_stores [sample_reply_a, sample_reply_b]"]
  by (auto simp: sample_queues sample_pass_ab_outcomes sample_terminal_ab sample_reply_key)

theorem queue_persisted_witness:
  "distinct [sample_reply_a, sample_reply_b]
   \<and> (\<exists>fs' st'. process_customer_replies strptime_strict sample_loads unfolded_header sample_envs_error
                (sample_stores [sample_reply_a, sample_reply_b]) = Inr (fs', st')
        \<and> replies_json fs' = Some [sample_reply_b])"
  using queue_persisted [of strptime_strict sample_loads unfolded_header sample_envs_error
          "sample_stores [sample_reply_a, sample_reply_b]"]
  by (auto simp: sample_queues sample_pass_ab_outcomes sample_terminal_ab sample_replies_differ)

theorem send_failure_keeps_reply_witness:
  "\<exists>fs' st'. process_customer_replies strptime_strict sample_loads unfolded_header sample_envs_send_fails
                (sample_stores [sample_reply_a]) = Inr (fs', st')
     \<and> pass_outcomes strptime_strict sample_loads unfolded_header sample_envs_send_fails
          (sample_stores [sample_reply_a]) ! 0 = SendFailed
     \<and> sample_reply_a \<in> set (load_json_file (replies_json fs'))
     \<and> (\<exists>st. state_at strptime_strict sample_loads unfolded_header sample_envs_send_fails
                 (sample_stores [sample_reply_a]) 0 = Inr st
             \<and> state_at strptime_strict sample_loads unfolded_header sample_envs_send_fails
                 (sample_stores [sample_reply_a]) (Suc 0) = Inr st)"
  using send_failure_keeps_reply [of strptime_strict sample_loads unfolded_header sample_envs_send_fails
          "sample_stores [sample_reply_a]"]
  by (auto simp: sample_queues sample_send_fails_outcomes)

theorem notification_failure_keeps_reply_witness:
  "\<exists>fs' st'. process_customer_replies strptime_strict sample_loads unfolded_header sample_envs_notify_fails
                (sample_stores [sample_reply_a]) = Inr (fs', st')
     \<and> pass_outcomes strptime_strict sample_loads unfolded_header sample_envs_notify_fails
          (sample_stores [sample_reply_a]) ! 0 = NotificationFailed
     \<and> sample_reply_a \<in> set (load_json_file (replies_json fs'))
     \<and> (\<exists>st stn. state_at strptime_strict sample_loads unfolded_header sample_envs_notify_fails
                 (sample_stores [sample_reply_a]) 0 = Inr st
             \<and> state_at strptime_strict sample_loads unfolded_header sample_envs_notify_fails
                 (sample_stores [sample_reply_a]) (Suc 0) = Inr stn
             \<and> replies stn = replies st
             \<and> failed (counters stn) = failed (counters st) + 1
             \<and> conversation_log (files stn) = conversation_log (files st)
             \<and> notification_log (files stn) = notification_log (files st))"
  using notification_failure_keeps_reply [of strptime_strict sample_loads unfolded_header sample_envs_notify_fails
          "sample_stores [sample_reply_a]"]
  by (auto simp: sample_queues sample_notify_fails_outcomes)

theorem drain_idempotent_witness:
  "pass_outcomes strptime_strict sample_loads unfolded_header sample_envs_error
     (sample_stores [sample_reply_a]) = [Escalated]
   \<and> (\<exists>fs1 st1. process_customer_replies strptime_strict sample_loads unfolded_header
                   sample_envs_error (sample_stores [sample_reply_a]) = Inr (fs1, st1)
        \<and> skipped_manual st1 = 0
        \<and> replies_json fs1 = Some []
        \<and> process_customer_replies strptime_strict sample_loads unfolded_header
             sample_envs_later fs1 = Inr (fs1, zero_stats))"
proof -
  let ?fs = "sample_stores [sample_reply_a]"
  from pass_total [of strptime_strict sample_loads unfolded_header sample_envs_error ?fs]
  obtain fs1 st1 where
    pass: "process_customer_replies strptime_strict sample_loads unfolded_header
             sample_envs_error ?fs = Inr (fs1, st1)"
    by blast
  have skipped: "skipped_manual st1 = 0"
    unfolding pass_counters [OF pass] sample_pass_a_outcomes
    by (simp add: bump_def zero_stats_def)
  have sent: "\<forall>out\<in>set (pass_outcomes strptime_strict sample_loads unfolded_header
                          sample_envs_error ?fs).
                out \<noteq> SendFailed \<and> out \<noteq> NotificationFailed"
    by (simp add: sample_pass_a_outcomes)
  from drain_idempotent [OF pass sent skipped] pass skipped sample_pass_a_outcomes
  show ?thesis by simp
qed

theorem generator_error_escalates_witness:
  "generate_ai_response sample_loads (runner_run (sample_envs_error 0))
     = (None, Some ''model unavailable'')
   \<and> step_outcome strptime_strict sample_loads unfolded_header (sample_envs_error 0) sample_reply_a
        (files (initial_state (sample_stores [sample_reply_a]))) = Escalated
   \<and> (\<exists>st'. process_reply strptime_strict sample_loads unfolded_header (sample_envs_error 0) sample_reply_a
               (initial_state (sample_stores [sample_reply_a])) = Inr st'
         \<and> replies st' = []
         \<and> escalated_to_human (counters st') = 1
         \<and> map escalation_reason (load_json_file (conversation_log (files st')))
              = [Some ''model unavailable''])"
  using generator_error_escalates [where e = "sample_envs_error 0"
          and err = "''model unavailable''" and jl = sample_loads and sp = strptime_strict
          and hk = unfolded_header and r = sample_reply_a
          and st = "initial_state (sample_stores [sample_reply_a])"]
  by (auto simp: sample_envs_error_def sample_env_def initial_state_def sample_stores_def
        was_manually_handled_missing load_json_file_def sample_headers)

lemma file_append_changes: "t \<noteq> [] \<Longrightarrow> file_append f t \<noteq> f"
  by (cases f) (auto simp: file_append_def)

lemma sample_after_first:
  assumes "process_reply strptime_strict sample_loads unfolded_header (sample_envs_error 0) sample_reply_a
             (initial_state (sample_stores q)) = Inr st1"
  shows "notification_log (files st1) =
          mark_as_manually_handled sample_mark_time ''a@x.com'' (Some sample_notification_line)"
  using process_reply_escalated_log [OF assms sample_first_outcome]
  by (simp add: sample_envs_error_def sample_env_def sample_reply_emails
        generate_ai_response_raised initial_state_def sample_stores_def file_append_def
        sample_notification_line_eq [simplified])

lemma sample_second_skipped:
  assumes "notification_log fs =
          mark_as_manually_handled sample_mark_time ''a@x.com'' (Some sample_notification_line)"
  shows "step_outcome strptime_strict sample_loads unfolded_header
           (sample_env sample_early_query (Inl ''model unavailable'') True) sample_reply_b fs
         = SkippedManual"
  using assms
  by (simp add: step_outcome_def sample_env_def sample_reply_emails sample_log_suppresses)

text \<open>
  The claim as stated fails without any transport error: of two replies of one sender
  the first is escalated, which marks the sender, and the second is skipped and stays in
  the queue; the second pass skips it again and writes its status line.
\<close>

theorem drain_idempotent_counterexample:
  "(\<forall>i. smtp_ok (sample_envs_error i)) \<and> (\<forall>i. smtp_ok (sample_envs_later i))
   \<and> (\<exists>fs1 st1. process_customer_replies strptime_strict sample_loads unfolded_header sample_envs_error
                   (sample_stores [sample_reply_a, sample_reply_b]) = Inr (fs1, st1)
        \<and> replies_json fs1 = Some [sample_reply_b]
        \<and> (\<exists>fs2 st2. process_customer_replies strptime_strict sample_loads unfolded_header sample_envs_later fs1
                        = Inr (fs2, st2)
               \<and> reply_log fs2 \<noteq> reply_log fs1))"
proof -
  let ?fs = "sample_stores [sample_reply_a, sample_reply_b]"
  let ?log = "mark_as_manually_handled sample_mark_time ''a@x.com''
                (Some sample_notification_line)"
  let ?later = "sample_env sample_early_query (Inl ''model unavailable'') True"
  have smtp: "(\<forall>i. smtp_ok (sample_envs_error i)) \<and> (\<forall>i. smtp_ok (sample_envs_later i))"
    by (simp add: sample_envs_error_def sample_envs_later_def sample_env_def)
  from pass_total [of strptime_strict sample_loads unfolded_header sample_envs_error ?fs] obtain st' where
    st': "process_loop strptime_strict sample_loads unfolded_header sample_envs_error 0
            [sample_reply_a, sample_reply_b] (initial_state ?fs) = Inr st'"
      "process_customer_replies strptime_strict sample_loads unfolded_header sample_envs_error ?fs
            = Inr ((files st')\<lparr>replies_json := Some (replies st')\<rparr>, counters st')"
      "replies st' = [sample_reply_b]"
    by (auto simp: sample_queues sample_pass_ab_outcomes sample_terminal_ab
        sample_replies_differ)
  from st'(1) obtain st1 where
    st1: "process_reply strptime_strict sample_loads unfolded_header (sample_envs_error 0) sample_reply_a
            (initial_state ?fs) = Inr st1"
      and "process_reply strptime_strict sample_loads unfolded_header (sample_envs_error (Suc 0))
            sample_reply_b st1 = Inr st'"
    by (auto split: sum.splits)
  moreover have "sample_envs_error (Suc 0) = ?later"
    by (simp add: sample_envs_error_def)
  ultimately have second: "process_reply strptime_strict sample_loads unfolded_header ?later
            sample_reply_b st1 = Inr st'"
    by simp
  have "step_outcome strptime_strict sample_loads unfolded_header ?later sample_reply_b (files st1)
          = SkippedManual"
    by (rule sample_second_skipped [OF sample_after_first [OF st1]])
  from process_reply_skipped [OF this] second
  have "notification_log (files st') = notification_log (files st1)"
    by (auto simp: log_reply_status_def)
  with sample_after_first [OF st1] have log: "notification_log (files st') = ?log" by simp
  let ?fs1 = "(files st')\<lparr>replies_json := Some (replies st')\<rparr>"
  have q1: "load_json_file (replies_json ?fs1) = [sample_reply_b]"
    by (simp add: st'(3) load_json_file_def)
  have "step_outcome strptime_strict sample_loads unfolded_header ?later sample_reply_b
          (files (initial_state ?fs1)) = SkippedManual"
    by (rule sample_second_skipped) (simp add: initial_state_def log)
  from process_reply_skipped [OF this]
  have "\<exists>fs2 st2. process_customer_replies strptime_strict sample_loads unfolded_header sample_envs_later ?fs1
                        = Inr (fs2, st2)
               \<and> reply_log fs2 \<noteq> reply_log ?fs1"
    unfolding process_customer_replies_def q1
    by (simp add: sample_envs_later_def initial_state_def log_reply_status_def
        file_append_changes)
  with smtp st'(2,3) show ?thesis by auto
qed

section \<open>The search predicate\<close>

lemma or_tree_shape:
  "(emails \<noteq> [] \<longrightarrow> (\<exists>t. or_tree emails = Some t))
   \<and> (2 \<le> length emails \<longrightarrow> (\<exists>l r. or_tree emails = Some (Or l r)))"
proof (induction emails rule: or_tree.induct)
  case (4 a b c ds)
  let ?emails = "a # b # c # ds"
  let ?mid = "length ?emails div 2"
  have "take ?mid ?emails \<noteq> []" "drop ?mid ?emails \<noteq> []" by auto
  with 4 [OF refl refl] obtain l r where
    "or_tree (take ?mid ?emails) = Some l" "or_tree (drop ?mid ?emails) = Some r"
    by blast
  then show ?case by (simp add: or_tree.simps(4) Let_def)
qed simp_all



lemma or_tree_split:
  assumes "3 \<le> length emails"
  shows "or_tree emails =
           (case (or_tree (take (length emails div 2) emails),
                  or_tree (drop (length emails div 2) emails)) of
              (Some l, Some r) \<Rightarrow> Some (Or l r)
            | _ \<Rightarrow> None)"
proof -
  from assms obtain a b c ds where "emails = a # b # c # ds"
    by (cases emails; cases "tl emails"; cases "tl (tl emails)") auto
  then show ?thesis by (simp only: or_tree.simps(4) Let_def)
qed

lemma build_or_query_split:
  assumes "3 \<le> length emails"
  shows "build_or_query emails =
           Some (''OR ('' @ fmt_opt (build_or_query (take (length emails div 2) emails)) @ '') (''
                   @ fmt_opt (build_or_query (drop (length emails div 2) emails)) @ '')'')"
proof -
  from assms have "emails \<noteq> []" "length emails \<noteq> 1" "length emails \<noteq> 2" by auto
  then show ?thesis by (subst build_or_query.simps) (simp only: if_False Let_def)
qed

lemma build_or_query_render: "build_or_query emails = map_option render (or_tree emails)"
proof (induction "length emails" arbitrary: emails rule: less_induct)
  case less
  consider "emails = []" | a where "emails = [a]" | a b where "emails = [a, b]"
    | "3 \<le> length emails"
    by (cases emails; cases "tl emails"; cases "tl (tl emails)") auto
  then show ?case
  proof cases
    case 1
    then show ?thesis by (subst build_or_query.simps) simp
  next
    case 2
    then show ?thesis by (subst build_or_query.simps) simp
  next
    case 3
    then show ?thesis by (subst build_or_query.simps) simp
  next
    case 4
    let ?mid = "length emails div 2"
    let ?left = "take ?mid emails"
    let ?right = "drop ?mid emails"
    from 4 have ne: "?left \<noteq> []" and two: "2 \<le> length ?right"
      and shorter: "length ?left < length emails" "length ?right < length emails"
      by auto
    from or_tree_shape [of ?left] ne obtain l where l: "or_tree ?left = Some l" by blast
    from or_tree_shape [of ?right] two obtain r1 r2 where
      r: "or_tree ?right = Some (Or r1 r2)" by blast
    have bl: "build_or_query ?left = Some (render l)"
      using less [OF shorter(1)] l by simp
    have br: "build_or_query ?right = Some (render (Or r1 r2))"
      using less [OF shorter(2)] r by simp
    have "or_tree emails = Some (Or l (Or r1 r2))"
      unfolding or_tree_split [OF 4] l r by simp
    moreover have "build_or_query emails
        = Some (''OR ('' @ render l @ '') ('' @ render (Or r1 r2) @ '')'')"
      unfolding build_or_query_split [OF 4] bl br by (simp add: fmt_opt_def)
    ultimately show ?thesis by simp
  qed
qed









text \<open>
  The text is written without escaping: an address with a double quote gives a predicate
  that does not read back, and so matches nothing.
\<close>

lemma unescaped_quote_matches_nothing:
  "\<not> query_matches sender_is (build_or_query [''a'' @ [DQ] @ ''b'']) (''a'' @ [DQ] @ ''b'')"
  by (simp add: build_or_query_render query_matches_def DQ_def BS_def CR_def LF_def
      eval_nat_numeral)




end
